theory Spec2Isabelle
  imports Main "HOL-Library.Multiset"
begin

section \<open>Data model (shared/schema.ts)\<close>

text \<open>
  The rows of the three tables, as the types inferred from the table declarations give
  them to the storage class. A column without \<open>notNull\<close> is nullable and becomes an
  \<open>option\<close>. A \<open>Date\<close> is its \<open>getTime()\<close> value, an integer number of
  milliseconds. A string is the list of its UTF-16 code units, and a \<open>char\<close> is a
  code unit from U+0000 to U+00FF. The numeric columns are integers.
\<close>

record issue =
  issue_id :: string
  githubId :: int
  number :: int
  title :: string
  body :: "string option"
  state :: string
  labels :: "string list option"
  language :: "string option"
  repositoryName :: string
  repositoryOwner :: string
  repositoryStars :: "int option"
  repositoryForks :: "int option"
  comments :: "int option"
  difficulty :: "string option"
  isRecommended :: "bool option"
  createdAt :: "int option"
  updatedAt :: "int option"

record user =
  user_id :: string
  user_githubId :: int
  username :: string
  avatarUrl :: "string option"
  user_name :: "string option"
  bio :: "string option"
  publicRepos :: "int option"
  followers :: "int option"
  following :: "int option"
  topLanguages :: "string list option"
  user_createdAt :: "int option"

record repository =
  repo_id :: string
  repo_githubId :: int
  repo_name :: string
  fullName :: string
  owner :: string
  description :: "string option"
  repo_language :: "string option"
  repo_stars :: "int option"
  repo_forks :: "int option"
  openIssues :: "int option"
  isPrivate :: "bool option"
  repo_createdAt :: "int option"
  repo_updatedAt :: "int option"

datatype repo_size = SizeAny | Small | Medium | Large

datatype sort_mode = Recent | Stars | Match | Comments

text \<open>\<open>IssueFilters\<close>: every field of \<open>issueFiltersSchema\<close> is optional.\<close>

record issue_filters =
  languages :: "string list option"
  difficulties :: "string list option"
  repositorySize :: "repo_size option"
  search :: "string option"
  sortBy :: "sort_mode option"
  page :: "int option"
  limit :: "int option"

text \<open>
  The bounds \<open>issueFiltersSchema\<close> puts on the two numbers:
  \<open>page: z.number().min(1)\<close> and \<open>limit: z.number().min(1).max(100)\<close>.
\<close>

definition validFilters :: "issue_filters \<Rightarrow> bool" where
  "validFilters f =
     ((case page f of None \<Rightarrow> True | Some p \<Rightarrow> 1 \<le> p) \<and>
      (case limit f of None \<Rightarrow> True | Some l \<Rightarrow> 1 \<le> l \<and> l \<le> 100))"

text \<open>The value both query methods return, \<open>{ issues, total }\<close>.\<close>

record query_result =
  result_issues :: "issue list"
  total :: int

text \<open>
  \<open>MemStorage\<close>: three \<open>Map\<close>s from id to row. A \<open>Map\<close> iterates in insertion
  order, so each is an association list with distinct keys, oldest entry first.
\<close>

record mem_storage =
  users :: "(string \<times> user) list"
  repositories :: "(string \<times> repository) list"
  issues :: "(string \<times> issue) list"

datatype error = TypeError

section \<open>JavaScript primitives used by the queries\<close>

text \<open>Truthiness of a nullable string: neither \<open>null\<close> nor the empty string.\<close>

definition truthy :: "string option \<Rightarrow> bool" where
  "truthy s = (case s of None \<Rightarrow> False | Some t \<Rightarrow> t \<noteq> [])"

text \<open>\<open>n || 0\<close> on a nullable number.\<close>

definition orZero :: "int option \<Rightarrow> int" where
  "orZero n = (case n of None \<Rightarrow> 0 | Some k \<Rightarrow> k)"

text \<open>\<open>s || ''\<close> on a nullable string.\<close>

definition orEmpty :: "string option \<Rightarrow> string" where
  "orEmpty s = (case s of None \<Rightarrow> [] | Some t \<Rightarrow> t)"

text \<open>\<open>new Date(d).getTime()\<close>; \<open>new Date(null)\<close> is the epoch.\<close>

definition getTime :: "int option \<Rightarrow> int" where
  "getTime d = (case d of None \<Rightarrow> 0 | Some t \<Rightarrow> t)"

text \<open>
  \<open>s.toLowerCase()\<close>, unit by unit. Up to U+00FF the capitals are A to Z (65 to 90)
  and U+00C0 to U+00DE (192 to 222) without the multiplication sign U+00D7 (215); the
  small letter of each is 32 further on, and every other unit stays.
\<close>

definition toLowerChar :: "char \<Rightarrow> char" where
  "toLowerChar c =
     (let n = (of_char c :: nat)
      in if (65 \<le> n \<and> n \<le> 90) \<or> (192 \<le> n \<and> n \<le> 222 \<and> n \<noteq> 215)
         then char_of (n + 32) else c)"

definition toLowerCase :: "string \<Rightarrow> string" where
  "toLowerCase s = map toLowerChar s"

text \<open>
  \<open>s.trim()\<close> strips white space and line terminators from both ends. Up to U+00FF
  these are tab, line feed, vertical tab, form feed, carriage return, space and the
  no-break space U+00A0 (160).
\<close>

definition isWhiteSpace :: "char \<Rightarrow> bool" where
  "isWhiteSpace c = ((of_char c :: nat) \<in> {9, 10, 11, 12, 13, 32, 160})"

definition trim :: "string \<Rightarrow> string" where
  "trim s = rev (dropWhile isWhiteSpace (rev (dropWhile isWhiteSpace s)))"

text \<open>\<open>s.startsWith(t)\<close> and \<open>s.includes(t)\<close>: \<open>t\<close> occurs in \<open>s\<close> as a block.\<close>

fun startsWith :: "string \<Rightarrow> string \<Rightarrow> bool" where
  "startsWith s [] = True"
| "startsWith [] (c # t) = False"
| "startsWith (d # s) (c # t) = (d = c \<and> startsWith s t)"

fun includes_str :: "string \<Rightarrow> string \<Rightarrow> bool" where
  "includes_str [] t = (t = [])"
| "includes_str (d # s) t = (startsWith (d # s) t \<or> includes_str s t)"

text \<open>\<open>xs.includes(x)\<close> on an array.\<close>

definition includes_arr :: "'a list \<Rightarrow> 'a \<Rightarrow> bool" where
  "includes_arr xs x = (x \<in> set xs)"

text \<open>
  \<open>xs.slice(start, end)\<close>: a negative index counts from the end, and both indices are
  clamped to the array.
\<close>

definition slice :: "'a list \<Rightarrow> int \<Rightarrow> int \<Rightarrow> 'a list" where
  "slice xs start end =
     (let len = int (length xs);
          k = (if start < 0 then max (len + start) 0 else min start len);
          fin = (if end < 0 then max (len + end) 0 else min end len)
      in take (nat (fin - k)) (drop (nat k) xs))"

text \<open>
  \<open>xs.sort(cmp)\<close> is a stable sort: with a comparator that is a difference of keys the
  result is the one insertion sort gives, where an element goes in front of the first
  element it does not have to follow.
\<close>

fun insertBy :: "('a \<Rightarrow> 'a \<Rightarrow> int) \<Rightarrow> 'a \<Rightarrow> 'a list \<Rightarrow> 'a list" where
  "insertBy cmp x [] = [x]"
| "insertBy cmp x (y # ys) = (if cmp x y \<le> 0 then x # y # ys else y # insertBy cmp x ys)"

fun sort_js :: "('a \<Rightarrow> 'a \<Rightarrow> int) \<Rightarrow> 'a list \<Rightarrow> 'a list" where
  "sort_js cmp [] = []"
| "sort_js cmp (x # xs) = insertBy cmp x (sort_js cmp xs)"

text \<open>\<open>xs.filter(p)\<close> with a callback that may throw: the first throw ends the call.\<close>

fun filterE :: "('a \<Rightarrow> error + bool) \<Rightarrow> 'a list \<Rightarrow> error + 'a list" where
  "filterE p [] = Inr []"
| "filterE p (x # xs) =
     (case p x of
        Inl e \<Rightarrow> Inl e
      | Inr b \<Rightarrow> (case filterE p xs of
                   Inl e \<Rightarrow> Inl e
                 | Inr ys \<Rightarrow> Inr (if b then x # ys else ys)))"

section \<open>The query methods of MemStorage\<close>

text \<open>
  The source holds the class \<open>MemStorage\<close> twice. This section follows the copy whose
  two query methods have a search step; the two query methods of the copy in
  \<open>server/storage.ts\<close> come in a section of their own.
\<close>

text \<open>\<open>getUser\<close>: \<open>this.users.get(id)\<close>.\<close>

definition getUser :: "mem_storage \<Rightarrow> string \<Rightarrow> user option" where
  "getUser s uid = map_of (users s) uid"

text \<open>\<open>Array.from(this.issues.values())\<close>.\<close>

definition issueValues :: "mem_storage \<Rightarrow> issue list" where
  "issueValues s = map snd (issues s)"

text \<open>
  The guard \<open>filters.search && filters.search.trim()\<close> and the term
  \<open>filters.search.toLowerCase().trim()\<close>.
\<close>

definition searchActive :: "issue_filters \<Rightarrow> bool" where
  "searchActive f = (case search f of None \<Rightarrow> False | Some q \<Rightarrow> q \<noteq> [] \<and> trim q \<noteq> [])"

definition searchTerm :: "issue_filters \<Rightarrow> string" where
  "searchTerm f = trim (toLowerCase (orEmpty (search f)))"

text \<open>
  The callback of the search filter. \<open>issue.labels.some\<close> has no \<open>?.\<close>: on a row whose
  \<open>labels\<close> is \<open>null\<close> it throws a TypeError, after the other five matches were
  computed and whatever they were.
\<close>

definition matchesSearch :: "string \<Rightarrow> issue \<Rightarrow> error + bool" where
  "matchesSearch term i =
     (let titleMatch = includes_str (toLowerCase (title i)) term;
          bodyMatch = (case body i of None \<Rightarrow> False
                       | Some b \<Rightarrow> includes_str (toLowerCase b) term);
          repoMatch = includes_str (toLowerCase (repositoryName i)) term;
          ownerMatch = includes_str (toLowerCase (repositoryOwner i)) term;
          languageMatch = (case language i of None \<Rightarrow> False
                           | Some l \<Rightarrow> includes_str (toLowerCase l) term)
      in case labels i of
           None \<Rightarrow> Inl TypeError
         | Some ls \<Rightarrow>
             Inr (titleMatch \<or> bodyMatch \<or> repoMatch \<or> ownerMatch \<or> languageMatch \<or>
                  list_ex (\<lambda>label. includes_str (toLowerCase label) term) ls))"

text \<open>The three filters that follow the search, each with its guard.\<close>

definition languageCallback :: "string list \<Rightarrow> issue \<Rightarrow> bool" where
  "languageCallback ls i = (truthy (language i) \<and> includes_arr ls (orEmpty (language i)))"

definition applyLanguages :: "issue_filters \<Rightarrow> issue list \<Rightarrow> issue list" where
  "applyLanguages f xs =
     (case languages f of
        None \<Rightarrow> xs
      | Some ls \<Rightarrow> if length ls > 0 then filter (languageCallback ls) xs else xs)"

definition difficultyCallback :: "string list \<Rightarrow> issue \<Rightarrow> bool" where
  "difficultyCallback ds i = (truthy (difficulty i) \<and> includes_arr ds (orEmpty (difficulty i)))"

definition applyDifficulty :: "issue_filters \<Rightarrow> issue list \<Rightarrow> issue list" where
  "applyDifficulty f xs =
     (case difficulties f of
        None \<Rightarrow> xs
      | Some ds \<Rightarrow> if length ds > 0 then filter (difficultyCallback ds) xs else xs)"

fun sizeCase :: "repo_size \<Rightarrow> int \<Rightarrow> bool" where
  "sizeCase Small stars = (stars < 100)"
| "sizeCase Medium stars = (stars \<ge> 100 \<and> stars < 1000)"
| "sizeCase Large stars = (stars \<ge> 1000)"
| "sizeCase SizeAny stars = True"

definition sizeCallback :: "repo_size \<Rightarrow> issue \<Rightarrow> bool" where
  "sizeCallback sz i = (let stars = orZero (repositoryStars i) in sizeCase sz stars)"

definition applySize :: "issue_filters \<Rightarrow> issue list \<Rightarrow> issue list" where
  "applySize f xs =
     (case repositorySize f of
        None \<Rightarrow> xs
      | Some sz \<Rightarrow> if sz \<noteq> SizeAny then filter (sizeCallback sz) xs else xs)"

text \<open>The comparator of \<open>getIssues\<close>, with \<open>filters.sortBy || "recent"\<close>.\<close>

definition sortByOf :: "issue_filters \<Rightarrow> sort_mode" where
  "sortByOf f = (case sortBy f of None \<Rightarrow> Recent | Some m \<Rightarrow> m)"

fun compareIssues :: "sort_mode \<Rightarrow> issue \<Rightarrow> issue \<Rightarrow> int" where
  "compareIssues Stars a b = orZero (repositoryStars b) - orZero (repositoryStars a)"
| "compareIssues Comments a b = orZero (comments b) - orZero (comments a)"
| "compareIssues Match a b =
     (if isRecommended b = Some True then 1 else 0) -
     (if isRecommended a = Some True then 1 else 0)"
| "compareIssues Recent a b = getTime (updatedAt b) - getTime (updatedAt a)"

text \<open>\<open>filters.page || 1\<close> and \<open>filters.limit || 10\<close>: zero is falsy too.\<close>

definition pageOf :: "issue_filters \<Rightarrow> int" where
  "pageOf f = (case page f of None \<Rightarrow> 1 | Some p \<Rightarrow> if p = 0 then 1 else p)"

definition limitOf :: "issue_filters \<Rightarrow> int" where
  "limitOf f = (case limit f of None \<Rightarrow> 10 | Some l \<Rightarrow> if l = 0 then 10 else l)"

definition paginate :: "issue_filters \<Rightarrow> issue list \<Rightarrow> query_result" where
  "paginate f xs =
     (let total = int (length xs);
          page = pageOf f;
          limit = limitOf f;
          start = (page - 1) * limit
      in \<lparr>result_issues = slice xs start (start + limit), total = total\<rparr>)"

text \<open>
  \<open>getIssues\<close>, in two parts: the array as it stands when \<open>total\<close> is read
  (searched, filtered, sorted), and the page cut from it.
\<close>

definition applySearch :: "issue_filters \<Rightarrow> issue list \<Rightarrow> error + issue list" where
  "applySearch f xs =
     (if searchActive f then filterE (matchesSearch (searchTerm f)) xs else Inr xs)"

definition rankedIssues :: "issue_filters \<Rightarrow> mem_storage \<Rightarrow> error + issue list" where
  "rankedIssues f s =
     (case applySearch f (issueValues s) of
        Inl e \<Rightarrow> Inl e
      | Inr xs \<Rightarrow>
          Inr (sort_js (compareIssues (sortByOf f))
                 (applySize f (applyDifficulty f (applyLanguages f xs)))))"

definition getIssues :: "issue_filters \<Rightarrow> mem_storage \<Rightarrow> error + query_result" where
  "getIssues f s =
     (case rankedIssues f s of Inl e \<Rightarrow> Inl e | Inr xs \<Rightarrow> Inr (paginate f xs))"

text \<open>
  \<open>getRecommendedIssuesForUser\<close>. When a search is active the search filter runs;
  otherwise, and only when the user has top languages, the rows are narrowed to those
  without a language or with one of the user's languages.
\<close>

definition affinityCallback :: "string list \<Rightarrow> issue \<Rightarrow> bool" where
  "affinityCallback langs i =
     (if \<not> truthy (language i) then True else includes_arr langs (orEmpty (language i)))"

definition applyAffinity :: "user \<Rightarrow> issue list \<Rightarrow> issue list" where
  "applyAffinity u xs =
     (case topLanguages u of
        None \<Rightarrow> xs
      | Some langs \<Rightarrow> if length langs > 0 then filter (affinityCallback langs) xs else xs)"

definition applySearchOrAffinity ::
    "user \<Rightarrow> issue_filters \<Rightarrow> issue list \<Rightarrow> error + issue list" where
  "applySearchOrAffinity u f xs =
     (if searchActive f then filterE (matchesSearch (searchTerm f)) xs
      else Inr (applyAffinity u xs))"

definition beginnerLabels :: "string list" where
  "beginnerLabels = [''good first issue'', ''beginner friendly'', ''help wanted'']"

text \<open>\<open>issue.labels?.some(label => [...].includes(label.toLowerCase()))\<close>, falsy on \<open>null\<close>.\<close>

definition hasBeginnerLabel :: "issue \<Rightarrow> bool" where
  "hasBeginnerLabel i =
     (case labels i of
        None \<Rightarrow> False
      | Some ls \<Rightarrow> list_ex (\<lambda>label. includes_arr beginnerLabels (toLowerCase label)) ls)"

text \<open>\<open>user.topLanguages?.includes(x)\<close>, falsy on \<open>null\<close>.\<close>

definition inTopLanguages :: "user \<Rightarrow> string \<Rightarrow> bool" where
  "inTopLanguages u x = (case topLanguages u of None \<Rightarrow> False | Some langs \<Rightarrow> includes_arr langs x)"

text \<open>The copy \<open>{ ...issue, isRecommended: ... }\<close>.\<close>

definition markRecommended :: "user \<Rightarrow> issue \<Rightarrow> issue" where
  "markRecommended u i =
     i\<lparr>isRecommended := Some (inTopLanguages u (orEmpty (language i)) \<or> hasBeginnerLabel i)\<rparr>"

text \<open>
  \<open>calculateRecommendationScore\<close>. The clock \<open>Date.now()\<close> is the parameter \<open>now\<close>,
  one reading for the whole call.
\<close>

definition calculateRecommendationScore :: "int \<Rightarrow> issue \<Rightarrow> user \<Rightarrow> int" where
  "calculateRecommendationScore now i u =
     (let score = 0;
          score = (if truthy (language i) \<and> inTopLanguages u (orEmpty (language i))
                   then score + 10 else score);
          score = (if hasBeginnerLabel i then score + 15 else score);
          score = (if (case repositoryStars i of None \<Rightarrow> False
                       | Some n \<Rightarrow> n \<noteq> 0 \<and> n > 100)
                   then score + 5 else score);
          score = (if (case updatedAt i of None \<Rightarrow> False
                       | Some t \<Rightarrow> t > now - 7 * 24 * 60 * 60 * 1000)
                   then score + 3 else score)
      in score)"

definition compareScore :: "int \<Rightarrow> user \<Rightarrow> issue \<Rightarrow> issue \<Rightarrow> int" where
  "compareScore now u a b =
     (let scoreA = calculateRecommendationScore now a u;
          scoreB = calculateRecommendationScore now b u
      in scoreB - scoreA)"

definition filteredRecommended ::
    "user \<Rightarrow> issue_filters \<Rightarrow> mem_storage \<Rightarrow> error + issue list" where
  "filteredRecommended u f s =
     (case applySearchOrAffinity u f (issueValues s) of
        Inl e \<Rightarrow> Inl e
      | Inr xs \<Rightarrow> Inr (applySize f (applyDifficulty f (applyLanguages f xs))))"

definition rankedRecommended ::
    "int \<Rightarrow> user \<Rightarrow> issue_filters \<Rightarrow> mem_storage \<Rightarrow> error + issue list" where
  "rankedRecommended now u f s =
     (case filteredRecommended u f s of
        Inl e \<Rightarrow> Inl e
      | Inr xs \<Rightarrow> Inr (sort_js (compareScore now u) (map (markRecommended u) xs)))"

definition getRecommendedIssuesForUser ::
    "int \<Rightarrow> string \<Rightarrow> issue_filters \<Rightarrow> mem_storage \<Rightarrow> error + query_result" where
  "getRecommendedIssuesForUser now userId f s =
     (case getUser s userId of
        None \<Rightarrow> Inr \<lparr>result_issues = [], total = 0\<rparr>
      | Some u \<Rightarrow>
          (case rankedRecommended now u f s of
             Inl e \<Rightarrow> Inl e
           | Inr xs \<Rightarrow> Inr (paginate f xs)))"

section \<open>The methods that write issues\<close>

text \<open>
  \<open>createIssue\<close> and \<open>updateIssue\<close>, the only writers of the issues \<open>Map\<close>. The new
  id (\<open>randomUUID()\<close>) and the clock (\<open>new Date()\<close>) are parameters. An \<open>InsertIssue\<close>
  is a row without \<open>id\<close>, \<open>createdAt\<close> and \<open>updatedAt\<close>; in the
  \<open>Partial<InsertIssue>\<close> that \<open>updateIssue\<close> takes, a key may also be missing,
  which is the outer \<open>None\<close> of each field below.
\<close>

record insert_issue =
  ins_githubId :: int
  ins_number :: int
  ins_title :: string
  ins_body :: "string option"
  ins_state :: string
  ins_labels :: "string list option"
  ins_language :: "string option"
  ins_repositoryName :: string
  ins_repositoryOwner :: string
  ins_repositoryStars :: "int option"
  ins_repositoryForks :: "int option"
  ins_comments :: "int option"
  ins_difficulty :: "string option"
  ins_isRecommended :: "bool option"

record issue_patch =
  upd_githubId :: "int option"
  upd_number :: "int option"
  upd_title :: "string option"
  upd_body :: "string option option"
  upd_state :: "string option"
  upd_labels :: "string list option option"
  upd_language :: "string option option"
  upd_repositoryName :: "string option"
  upd_repositoryOwner :: "string option"
  upd_repositoryStars :: "int option option"
  upd_repositoryForks :: "int option option"
  upd_comments :: "int option option"
  upd_difficulty :: "string option option"
  upd_isRecommended :: "bool option option"

text \<open>\<open>map.set(k, v)\<close>: an existing key keeps its place, a new key goes last.\<close>

fun mapSet :: "'k \<Rightarrow> 'v \<Rightarrow> ('k \<times> 'v) list \<Rightarrow> ('k \<times> 'v) list" where
  "mapSet k v [] = [(k, v)]"
| "mapSet k v (p # ps) = (if fst p = k then (k, v) # ps else p # mapSet k v ps)"

text \<open>\<open>s || null\<close> on a nullable string.\<close>

definition orNull :: "string option \<Rightarrow> string option" where
  "orNull s = (if truthy s then s else None)"

text \<open>\<open>{ ...a, ...b }\<close> on one field: the key of \<open>b\<close> wins when it is there.\<close>

definition spread :: "'a \<Rightarrow> 'a option \<Rightarrow> 'a" where
  "spread old new = (case new of None \<Rightarrow> old | Some v \<Rightarrow> v)"

definition createIssue ::
    "string \<Rightarrow> int \<Rightarrow> insert_issue \<Rightarrow> mem_storage \<Rightarrow> issue \<times> mem_storage" where
  "createIssue newId now insertIssue s =
     (let issue =
        \<lparr>issue_id = newId,
         githubId = ins_githubId insertIssue,
         number = ins_number insertIssue,
         title = ins_title insertIssue,
         body = orNull (ins_body insertIssue),
         state = ins_state insertIssue,
         labels = Some (case ins_labels insertIssue of None \<Rightarrow> [] | Some ls \<Rightarrow> ls),
         language = orNull (ins_language insertIssue),
         repositoryName = ins_repositoryName insertIssue,
         repositoryOwner = ins_repositoryOwner insertIssue,
         repositoryStars = Some (orZero (ins_repositoryStars insertIssue)),
         repositoryForks = Some (orZero (ins_repositoryForks insertIssue)),
         comments = Some (orZero (ins_comments insertIssue)),
         difficulty = orNull (ins_difficulty insertIssue),
         isRecommended = Some (ins_isRecommended insertIssue = Some True),
         createdAt = Some now,
         updatedAt = Some now\<rparr>
      in (issue, s\<lparr>issues := mapSet newId issue (issues s)\<rparr>))"

definition updateIssue ::
    "int \<Rightarrow> string \<Rightarrow> issue_patch \<Rightarrow> mem_storage \<Rightarrow> issue option \<times> mem_storage" where
  "updateIssue now key updateData s =
     (case map_of (issues s) key of
        None \<Rightarrow> (None, s)
      | Some issue \<Rightarrow>
          (let updatedIssue =
             \<lparr>issue_id = issue_id issue,
              githubId = spread (githubId issue) (upd_githubId updateData),
              number = spread (number issue) (upd_number updateData),
              title = spread (title issue) (upd_title updateData),
              body = spread (body issue) (upd_body updateData),
              state = spread (state issue) (upd_state updateData),
              labels = (case upd_labels updateData of
                          Some (Some ls) \<Rightarrow> Some ls
                        | _ \<Rightarrow> labels issue),
              language = spread (language issue) (upd_language updateData),
              repositoryName = spread (repositoryName issue) (upd_repositoryName updateData),
              repositoryOwner = spread (repositoryOwner issue) (upd_repositoryOwner updateData),
              repositoryStars = spread (repositoryStars issue) (upd_repositoryStars updateData),
              repositoryForks = spread (repositoryForks issue) (upd_repositoryForks updateData),
              comments = spread (comments issue) (upd_comments updateData),
              difficulty = spread (difficulty issue) (upd_difficulty updateData),
              isRecommended = spread (isRecommended issue) (upd_isRecommended updateData),
              createdAt = createdAt issue,
              updatedAt = Some now\<rparr>
           in (Some updatedIssue, s\<lparr>issues := mapSet key updatedIssue (issues s)\<rparr>)))"

text \<open>The store the constructor makes.\<close>

definition emptyStorage :: mem_storage where
  "emptyStorage = \<lparr>users = [], repositories = [], issues = []\<rparr>"

text \<open>A history of writes to the issues, starting from the constructor's store.\<close>

datatype issue_write =
    CreateIssue string int insert_issue
  | UpdateIssue int string issue_patch

fun runWrite :: "issue_write \<Rightarrow> mem_storage \<Rightarrow> mem_storage" where
  "runWrite (CreateIssue newId now insertIssue) s = snd (createIssue newId now insertIssue s)"
| "runWrite (UpdateIssue now key updateData) s = snd (updateIssue now key updateData s)"

fun runWrites :: "issue_write list \<Rightarrow> mem_storage \<Rightarrow> mem_storage" where
  "runWrites [] s = s"
| "runWrites (w # ws) s = runWrites ws (runWrite w s)"

section \<open>What a query keeps\<close>

text \<open>
  For each filtering step, the condition under which a row passes it: the step's guard
  is off, or its callback returns a truthy value.
\<close>

definition keepsSearch :: "issue_filters \<Rightarrow> issue \<Rightarrow> bool" where
  "keepsSearch f i = (\<not> searchActive f \<or> matchesSearch (searchTerm f) i = Inr True)"

definition keepsLanguage :: "issue_filters \<Rightarrow> issue \<Rightarrow> bool" where
  "keepsLanguage f i =
     (case languages f of
        None \<Rightarrow> True
      | Some ls \<Rightarrow> ls = [] \<or> (truthy (language i) \<and> orEmpty (language i) \<in> set ls))"

definition keepsDifficulty :: "issue_filters \<Rightarrow> issue \<Rightarrow> bool" where
  "keepsDifficulty f i =
     (case difficulties f of
        None \<Rightarrow> True
      | Some ds \<Rightarrow> ds = [] \<or> (truthy (difficulty i) \<and> orEmpty (difficulty i) \<in> set ds))"

definition keepsSize :: "issue_filters \<Rightarrow> issue \<Rightarrow> bool" where
  "keepsSize f i =
     (case repositorySize f of
        None \<Rightarrow> True
      | Some sz \<Rightarrow> sizeCase sz (orZero (repositoryStars i)))"

definition keepsAffinity :: "user \<Rightarrow> issue_filters \<Rightarrow> issue \<Rightarrow> bool" where
  "keepsAffinity u f i =
     (searchActive f \<or>
      (case topLanguages u of
         None \<Rightarrow> True
       | Some langs \<Rightarrow>
           langs = [] \<or> \<not> truthy (language i) \<or> orEmpty (language i) \<in> set langs))"

text \<open>The rows that pass every step of \<open>getIssues\<close>, in stored order.\<close>

definition keptIssues :: "issue_filters \<Rightarrow> mem_storage \<Rightarrow> issue list" where
  "keptIssues f s =
     filter (\<lambda>i. keepsSearch f i \<and> keepsLanguage f i \<and> keepsDifficulty f i \<and> keepsSize f i)
       (issueValues s)"

text \<open>The rows that pass every step of \<open>getRecommendedIssuesForUser\<close>, in stored order.\<close>

definition keptRecommended :: "user \<Rightarrow> issue_filters \<Rightarrow> mem_storage \<Rightarrow> issue list" where
  "keptRecommended u f s =
     filter (\<lambda>i. keepsSearch f i \<and> keepsAffinity u f i \<and> keepsLanguage f i \<and>
                 keepsDifficulty f i \<and> keepsSize f i)
       (issueValues s)"

text \<open>The number each comparator of \<open>getIssues\<close> takes from a row.\<close>

fun issueKey :: "sort_mode \<Rightarrow> issue \<Rightarrow> int" where
  "issueKey Stars i = orZero (repositoryStars i)"
| "issueKey Comments i = orZero (comments i)"
| "issueKey Match i = (if isRecommended i = Some True then 1 else 0)"
| "issueKey Recent i = getTime (updatedAt i)"

text \<open>Every stored issue has an array in \<open>labels\<close>, as \<open>createIssue\<close> and
  \<open>updateIssue\<close> leave it.\<close>

definition labelsPresent :: "mem_storage \<Rightarrow> bool" where
  "labelsPresent s = list_all (\<lambda>i. labels i \<noteq> None) (issueValues s)"

section \<open>The store with object identity\<close>

text \<open>
  In the running program a \<open>Map\<close> holds references to row objects, and so does every
  array a query builds: \<open>Array.from\<close>, \<open>filter\<close>, \<open>sort\<close> and \<open>slice\<close> move
  references around, and only the object literal \<open>{ ...issue, isRecommended: ... }\<close>
  makes a new object. To tell a stored object from a copy of it, the issue objects are
  put in a heap, a list indexed by address, and the issues \<open>Map\<close> holds addresses.
  The arrays themselves are fresh in every call and stay values. Each query returns
  the machine it leaves behind.
\<close>

record machine =
  m_users :: "(string \<times> user) list"
  m_repositories :: "(string \<times> repository) list"
  m_issues :: "(string \<times> nat) list"
  m_heap :: "issue list"

record ref_result =
  refs :: "nat list"
  ref_total :: int

text \<open>Every reference in the issues \<open>Map\<close> points into the heap.\<close>

definition wellFormed :: "machine \<Rightarrow> bool" where
  "wellFormed m = list_all (\<lambda>a. a < length (m_heap m)) (map snd (m_issues m))"

text \<open>The rows a machine stores, read through its references.\<close>

definition storeOf :: "machine \<Rightarrow> mem_storage" where
  "storeOf m =
     \<lparr>users = m_users m, repositories = m_repositories m,
      issues = map (\<lambda>(k, a). (k, m_heap m ! a)) (m_issues m)\<rparr>"

text \<open>The result of a query, read through its references.\<close>

definition resultOf :: "issue list \<Rightarrow> ref_result \<Rightarrow> query_result" where
  "resultOf h r = \<lparr>result_issues = map (\<lambda>a. h ! a) (refs r), total = ref_total r\<rparr>"

definition heapValues :: "machine \<Rightarrow> nat list" where
  "heapValues m = map snd (m_issues m)"

definition alloc :: "issue \<Rightarrow> issue list \<Rightarrow> nat \<times> issue list" where
  "alloc x h = (length h, h @ [x])"

text \<open>\<open>xs.map(issue => ({ ...issue, ... }))\<close>: one new object for each element.\<close>

fun mapCopy :: "(issue \<Rightarrow> issue) \<Rightarrow> nat list \<Rightarrow> issue list \<Rightarrow> nat list \<times> issue list" where
  "mapCopy g [] h = ([], h)"
| "mapCopy g (a # as) h =
     (case alloc (g (h ! a)) h of
        (r, h1) \<Rightarrow> (case mapCopy g as h1 of (rs, h2) \<Rightarrow> (r # rs, h2)))"

definition applySearch_h ::
    "issue list \<Rightarrow> issue_filters \<Rightarrow> nat list \<Rightarrow> error + nat list" where
  "applySearch_h h f as =
     (if searchActive f then filterE (\<lambda>a. matchesSearch (searchTerm f) (h ! a)) as
      else Inr as)"

definition applyLanguages_h :: "issue list \<Rightarrow> issue_filters \<Rightarrow> nat list \<Rightarrow> nat list" where
  "applyLanguages_h h f as =
     (case languages f of
        None \<Rightarrow> as
      | Some ls \<Rightarrow> if length ls > 0 then filter (\<lambda>a. languageCallback ls (h ! a)) as else as)"

definition applyDifficulty_h :: "issue list \<Rightarrow> issue_filters \<Rightarrow> nat list \<Rightarrow> nat list" where
  "applyDifficulty_h h f as =
     (case difficulties f of
        None \<Rightarrow> as
      | Some ds \<Rightarrow> if length ds > 0 then filter (\<lambda>a. difficultyCallback ds (h ! a)) as else as)"

definition applySize_h :: "issue list \<Rightarrow> issue_filters \<Rightarrow> nat list \<Rightarrow> nat list" where
  "applySize_h h f as =
     (case repositorySize f of
        None \<Rightarrow> as
      | Some sz \<Rightarrow> if sz \<noteq> SizeAny then filter (\<lambda>a. sizeCallback sz (h ! a)) as else as)"

definition applyAffinity_h :: "issue list \<Rightarrow> user \<Rightarrow> nat list \<Rightarrow> nat list" where
  "applyAffinity_h h u as =
     (case topLanguages u of
        None \<Rightarrow> as
      | Some langs \<Rightarrow>
          if length langs > 0 then filter (\<lambda>a. affinityCallback langs (h ! a)) as else as)"

definition applySearchOrAffinity_h ::
    "issue list \<Rightarrow> user \<Rightarrow> issue_filters \<Rightarrow> nat list \<Rightarrow> error + nat list" where
  "applySearchOrAffinity_h h u f as =
     (if searchActive f then filterE (\<lambda>a. matchesSearch (searchTerm f) (h ! a)) as
      else Inr (applyAffinity_h h u as))"

definition paginate_h :: "issue_filters \<Rightarrow> nat list \<Rightarrow> ref_result" where
  "paginate_h f as =
     (let total = int (length as);
          page = pageOf f;
          limit = limitOf f;
          start = (page - 1) * limit
      in \<lparr>refs = slice as start (start + limit), ref_total = total\<rparr>)"

definition getIssues_h :: "issue_filters \<Rightarrow> machine \<Rightarrow> (error + ref_result) \<times> machine" where
  "getIssues_h f m =
     (let h = m_heap m in
      case applySearch_h h f (heapValues m) of
        Inl e \<Rightarrow> (Inl e, m)
      | Inr as \<Rightarrow>
          (Inr (paginate_h f
                  (sort_js (\<lambda>a b. compareIssues (sortByOf f) (h ! a) (h ! b))
                     (applySize_h h f (applyDifficulty_h h f (applyLanguages_h h f as))))),
           m))"

definition getRecommendedIssuesForUser_h ::
    "int \<Rightarrow> string \<Rightarrow> issue_filters \<Rightarrow> machine \<Rightarrow> (error + ref_result) \<times> machine" where
  "getRecommendedIssuesForUser_h now userId f m =
     (case map_of (m_users m) userId of
        None \<Rightarrow> (Inr \<lparr>refs = [], ref_total = 0\<rparr>, m)
      | Some u \<Rightarrow>
          (let h = m_heap m in
           case applySearchOrAffinity_h h u f (heapValues m) of
             Inl e \<Rightarrow> (Inl e, m)
           | Inr as \<Rightarrow>
               (case mapCopy (markRecommended u)
                       (applySize_h h f (applyDifficulty_h h f (applyLanguages_h h f as))) h of
                  (rs, h') \<Rightarrow>
                    (Inr (paginate_h f
                            (sort_js (\<lambda>a b. compareScore now u (h' ! a) (h' ! b)) rs)),
                     m\<lparr>m_heap := h'\<rparr>))))"

section \<open>The two query methods in server/storage.ts\<close>

text \<open>
  The copy of the class in \<open>server/storage.ts\<close> has the same two methods in another
  form. Its \<open>getIssues\<close> has no search step, so it cannot throw. Its
  \<open>getRecommendedIssuesForUser\<close> computes the array narrowed to the user's languages
  and never reads it again: it calls \<open>this.getIssues({ ...filters })\<close>, marks and sorts
  the page that call returns, and gives the length of that page as the total.
\<close>

definition getIssues_v0 :: "issue_filters \<Rightarrow> mem_storage \<Rightarrow> query_result" where
  "getIssues_v0 f s =
     paginate f
       (sort_js (compareIssues (sortByOf f))
          (applySize f (applyDifficulty f (applyLanguages f (issueValues s)))))"

definition getRecommendedIssuesForUser_v0 ::
    "int \<Rightarrow> string \<Rightarrow> issue_filters \<Rightarrow> mem_storage \<Rightarrow> query_result" where
  "getRecommendedIssuesForUser_v0 now userId f s =
     (case getUser s userId of
        None \<Rightarrow> \<lparr>result_issues = [], total = 0\<rparr>
      | Some u \<Rightarrow>
          (let allIssues = applyAffinity u (issueValues s);
               result = getIssues_v0 f s;
               recommendedIssues =
                 sort_js (compareScore now u) (map (markRecommended u) (result_issues result))
           in \<lparr>result_issues = recommendedIssues, total = int (length recommendedIssues)\<rparr>))"

section \<open>Sample rows\<close>

text \<open>A small store on which the theorems below are instantiated.\<close>

definition sampleIssue ::
    "string \<Rightarrow> string option \<Rightarrow> string list \<Rightarrow> int \<Rightarrow> int \<Rightarrow> issue" where
  "sampleIssue name lang ls st upd =
     \<lparr>issue_id = name, githubId = 1, number = 1, title = name, body = None,
      state = ''open'', labels = Some ls, language = lang, repositoryName = ''repo'',
      repositoryOwner = ''octo'', repositoryStars = Some st, repositoryForks = Some 0,
      comments = Some 0, difficulty = Some ''beginner'', isRecommended = Some False,
      createdAt = Some 0, updatedAt = Some upd\<rparr>"

definition sampleUser :: "string \<Rightarrow> string list \<Rightarrow> user" where
  "sampleUser uid langs =
     \<lparr>user_id = uid, user_githubId = 7, username = ''dev'', avatarUrl = None,
      user_name = None, bio = None, publicRepos = Some 0, followers = Some 0,
      following = Some 0, topLanguages = Some langs, user_createdAt = Some 0\<rparr>"

definition noFilters :: issue_filters where
  "noFilters = \<lparr>languages = None, difficulties = None, repositorySize = None,
       search = None, sortBy = None, page = None, limit = None\<rparr>"

definition sampleStore :: mem_storage where
  "sampleStore =
     \<lparr>users = [(''u1'', sampleUser ''u1'' [''Python'']), (''u2'', sampleUser ''u2'' [])],
      repositories = [],
      issues =
        [(''a'', sampleIssue ''Old Starter'' (Some ''Python'') [''Good First Issue''] 50 1000),
         (''b'', sampleIssue ''Fresh'' None [] 2000 5000),
         (''c'', sampleIssue ''Java thing'' (Some ''Java'') [''bug''] 100 3000)]\<rparr>"

definition pagedFilters :: issue_filters where
  "pagedFilters = noFilters\<lparr>page := Some 2, limit := Some 2\<rparr>"

definition twoPerPage :: issue_filters where
  "twoPerPage = noFilters\<lparr>limit := Some 2\<rparr>"

definition docsIssue :: issue where
  "docsIssue = (sampleIssue ''Docs'' None [] 10 0)\<lparr>body := Some ''Fix Typo In Docs''\<rparr>"

definition docsStore :: mem_storage where
  "docsStore = sampleStore\<lparr>issues := issues sampleStore @ [(''d'', docsIssue)]\<rparr>"

definition typoFilters :: issue_filters where
  "typoFilters = noFilters\<lparr>search := Some '' Typo ''\<rparr>"

definition sampleMachine :: machine where
  "sampleMachine =
     \<lparr>m_users = users sampleStore, m_repositories = [],
      m_issues = [(''a'', 0), (''b'', 1), (''c'', 2)],
      m_heap = map snd (issues sampleStore)\<rparr>"

text \<open>What a call returned, in short: the ids of the issues in order, and the total.\<close>

definition resultIds :: "query_result \<Rightarrow> string list" where
  "resultIds r = map issue_id (result_issues r)"

definition returned :: "error + query_result \<Rightarrow> (string list \<times> int) option" where
  "returned x = (case x of Inl e \<Rightarrow> None | Inr r \<Rightarrow> Some (resultIds r, total r))"

section \<open>Facts about the primitives\<close>

lemma startsWith_iff: "startsWith s t \<longleftrightarrow> (\<exists>b. s = t @ b)"
  by (induction s t rule: startsWith.induct) auto

lemma includes_str_iff: "includes_str s t \<longleftrightarrow> (\<exists>a b. s = a @ t @ b)"
proof (induction s)
  case Nil
  show ?case by auto
next
  case (Cons d s)
  show ?case
  proof
    assume "includes_str (d # s) t"
    then consider "startsWith (d # s) t" | "includes_str s t" by auto
    then show "\<exists>a b. d # s = a @ t @ b"
    proof cases
      case 1
      then obtain b where "d # s = t @ b" by (auto simp: startsWith_iff)
      then have "d # s = [] @ t @ b" by simp
      then show ?thesis by blast
    next
      case 2
      then obtain a b where "s = a @ t @ b" using Cons.IH by blast
      then have "d # s = (d # a) @ t @ b" by simp
      then show ?thesis by blast
    qed
  next
    assume "\<exists>a b. d # s = a @ t @ b"
    then obtain a b where ab: "d # s = a @ t @ b" by blast
    show "includes_str (d # s) t"
    proof (cases a)
      case Nil
      with ab have "startsWith (d # s) t" by (auto simp: startsWith_iff)
      then show ?thesis by simp
    next
      case (Cons e a')
      with ab have "s = a' @ t @ b" by simp
      then have "includes_str s t" using Cons.IH by blast
      then show ?thesis by simp
    qed
  qed
qed

lemma insertBy_insort_key:
  "insertBy (\<lambda>a b. k b - k a) x ys = insort_key (\<lambda>i. - k i) x ys"
  by (induction ys) auto

lemma sort_js_sort_key:
  "sort_js (\<lambda>a b. k b - k a) xs = sort_key (\<lambda>i. - (k i :: int)) xs"
  by (induction xs) (simp_all add: insertBy_insort_key)

lemma sort_js_desc:
  "sorted_wrt (\<lambda>a b. k a \<ge> k b) (sort_js (\<lambda>a b. k b - k a) xs)"
proof -
  have "sorted (map (\<lambda>i. - k i) (sort_key (\<lambda>i. - k i) xs))" by simp
  then have "sorted_wrt (\<lambda>a b. - k a \<le> - k b) (sort_key (\<lambda>i. - k i) xs)"
    by (simp add: sorted_map)
  then show ?thesis by (simp add: sort_js_sort_key)
qed

lemma mset_sort_js: "mset (sort_js (\<lambda>a b. k b - k a) xs) = mset xs"
  by (simp add: sort_js_sort_key)

lemma length_sort_js: "length (sort_js (\<lambda>a b. k b - k a) xs) = length xs"
  by (simp add: sort_js_sort_key)

lemma set_sort_js: "set (sort_js (\<lambda>a b. k b - k a) xs) = set xs"
  by (simp add: sort_js_sort_key)

lemma filterE_ok:
  "\<forall>x \<in> set xs. \<exists>b. p x = Inr b \<Longrightarrow> filterE p xs = Inr (filter (\<lambda>x. p x = Inr True) xs)"
  by (induction xs) auto

lemma filterE_error:
  "(\<exists>e. filterE p xs = Inl e) \<longleftrightarrow> (\<exists>x \<in> set xs. \<exists>e. p x = Inl e)"
  by (induction xs) (auto split: sum.splits)

lemma take_min_length: "take (min n (length ys)) ys = take n ys"
  by (simp add: min_def)

lemma slice_page:
  assumes "0 \<le> start" "0 \<le> lim"
  shows "slice xs start (start + lim) = take (nat lim) (drop (nat start) xs)"
proof (cases "start \<le> int (length xs)")
  case True
  have "nat (min (start + lim) (int (length xs)) - start)
          = min (nat lim) (length (drop (nat start) xs))"
    using assms True by (auto simp: min_def)
  then have "take (nat (min (start + lim) (int (length xs)) - start)) (drop (nat start) xs)
          = take (nat lim) (drop (nat start) xs)"
    by (simp only: take_min_length)
  with assms True show ?thesis
    by (simp add: slice_def Let_def)
next
  case False
  with assms show ?thesis by (simp add: slice_def Let_def min_def)
qed

section \<open>The steps as filters\<close>

lemma applyLanguages_filter: "applyLanguages f xs = filter (keepsLanguage f) xs"
  by (auto simp: applyLanguages_def keepsLanguage_def languageCallback_def [abs_def]
           includes_arr_def
           split: option.splits intro: filter_cong)

lemma applyDifficulty_filter: "applyDifficulty f xs = filter (keepsDifficulty f) xs"
  by (auto simp: applyDifficulty_def keepsDifficulty_def difficultyCallback_def [abs_def]
           includes_arr_def split: option.splits intro: filter_cong)

lemma applySize_filter: "applySize f xs = filter (keepsSize f) xs"
  by (auto simp: applySize_def keepsSize_def sizeCallback_def [abs_def]
           split: option.splits intro: filter_cong)

lemma applyAffinity_filter:
  "\<not> searchActive f \<Longrightarrow> applyAffinity u xs = filter (keepsAffinity u f) xs"
  by (auto simp: applyAffinity_def keepsAffinity_def affinityCallback_def [abs_def]
           includes_arr_def
           split: option.splits intro: filter_cong)

lemma matchesSearch_ok: "labels i \<noteq> None \<Longrightarrow> \<exists>b. matchesSearch t i = Inr b"
  by (auto simp: matchesSearch_def Let_def)

lemma matchesSearch_error: "matchesSearch t i = Inl e \<longleftrightarrow> labels i = None"
  by (cases e) (auto simp: matchesSearch_def Let_def split: option.splits)

lemma applySearch_filter:
  assumes "list_all (\<lambda>i. labels i \<noteq> None) xs"
  shows "applySearch f xs = Inr (filter (keepsSearch f) xs)"
proof (cases "searchActive f")
  case True
  have "\<forall>x\<in>set xs. \<exists>b. matchesSearch (searchTerm f) x = Inr b"
    using assms matchesSearch_ok by (auto simp: list_all_iff)
  then have "filterE (matchesSearch (searchTerm f)) xs
               = Inr (filter (\<lambda>x. matchesSearch (searchTerm f) x = Inr True) xs)"
    by (rule filterE_ok)
  moreover have "keepsSearch f = (\<lambda>x. matchesSearch (searchTerm f) x = Inr True)"
    using True by (auto simp: keepsSearch_def)
  ultimately show ?thesis using True by (simp add: applySearch_def)
next
  case False
  then show ?thesis by (simp add: applySearch_def keepsSearch_def)
qed

lemma applySearch_inactive: "\<not> searchActive f \<Longrightarrow> applySearch f xs = Inr xs"
  by (simp add: applySearch_def)

lemma keepsSearch_inactive: "\<not> searchActive f \<Longrightarrow> keepsSearch f i"
  by (simp add: keepsSearch_def)

text \<open>
  The array both methods sort, whenever the search step cannot throw: no search is
  active, or every stored row has its labels.
\<close>

lemma applySearch_total:
  assumes "labelsPresent s \<or> \<not> searchActive f"
  shows "applySearch f (issueValues s) = Inr (filter (keepsSearch f) (issueValues s))"
proof (cases "searchActive f")
  case True
  with assms have "list_all (\<lambda>i. labels i \<noteq> None) (issueValues s)"
    by (simp add: labelsPresent_def)
  then show ?thesis by (rule applySearch_filter)
next
  case False
  then have "filter (keepsSearch f) (issueValues s) = issueValues s"
    by (simp add: keepsSearch_inactive)
  with False show ?thesis by (simp add: applySearch_inactive)
qed

lemma compareIssues_key: "compareIssues m = (\<lambda>a b. issueKey m b - issueKey m a)"
  by (cases m) (auto simp: fun_eq_iff)

lemma compareScore_key:
  "compareScore now u =
     (\<lambda>a b. calculateRecommendationScore now b u - calculateRecommendationScore now a u)"
  by (simp add: compareScore_def Let_def fun_eq_iff)

lemma rankedIssues_eq:
  assumes "labelsPresent s \<or> \<not> searchActive f"
  shows "rankedIssues f s = Inr (sort_js (compareIssues (sortByOf f)) (keptIssues f s))"
  using applySearch_total [OF assms]
  by (simp add: rankedIssues_def keptIssues_def applyLanguages_filter applyDifficulty_filter
        applySize_filter conj_commute conj_left_commute)

lemma filteredRecommended_eq:
  assumes "labelsPresent s \<or> \<not> searchActive f"
  shows "filteredRecommended u f s = Inr (keptRecommended u f s)"
proof (cases "searchActive f")
  case True
  then have k: "\<And>i. keepsAffinity u f i" by (simp add: keepsAffinity_def)
  from True assms have "list_all (\<lambda>i. labels i \<noteq> None) (issueValues s)"
    by (simp add: labelsPresent_def)
  then have "applySearch f (issueValues s) = Inr (filter (keepsSearch f) (issueValues s))"
    by (rule applySearch_filter)
  with True have "applySearchOrAffinity u f (issueValues s)
                    = Inr (filter (keepsSearch f) (issueValues s))"
    by (simp add: applySearchOrAffinity_def applySearch_def)
  then show ?thesis
    by (simp add: filteredRecommended_def keptRecommended_def applyLanguages_filter
          applyDifficulty_filter applySize_filter k conj_commute conj_left_commute)
next
  case False
  then have "applySearchOrAffinity u f (issueValues s)
               = Inr (filter (keepsAffinity u f) (issueValues s))"
    by (simp add: applySearchOrAffinity_def applyAffinity_filter)
  then show ?thesis
    using False
    by (simp add: filteredRecommended_def keptRecommended_def applyLanguages_filter
          applyDifficulty_filter applySize_filter keepsSearch_inactive
          conj_commute conj_left_commute)
qed

lemma rankedRecommended_eq:
  assumes "labelsPresent s \<or> \<not> searchActive f"
  shows "rankedRecommended now u f s
           = Inr (sort_js (compareScore now u) (map (markRecommended u) (keptRecommended u f s)))"
  using filteredRecommended_eq [OF assms] by (simp add: rankedRecommended_def)

text \<open>With a search active, one stored row without labels makes both methods throw.\<close>

lemma applySearch_throws:
  assumes "searchActive f" "\<not> list_all (\<lambda>i. labels i \<noteq> None) xs"
  shows "applySearch f xs = Inl TypeError"
proof -
  from assms(2) obtain x where "x \<in> set xs" "labels x = None"
    by (auto simp: list_all_iff)
  then have "matchesSearch (searchTerm f) x = Inl TypeError"
    by (simp add: matchesSearch_error)
  with \<open>x \<in> set xs\<close> have "\<exists>x\<in>set xs. \<exists>e. matchesSearch (searchTerm f) x = Inl e"
    by blast
  then have "\<exists>e. filterE (matchesSearch (searchTerm f)) xs = Inl e"
    by (simp only: filterE_error [of "matchesSearch (searchTerm f)" xs])
  then obtain e where e: "filterE (matchesSearch (searchTerm f)) xs = Inl e" ..
  have "e = TypeError" by (cases e) simp
  with e assms(1) show ?thesis by (simp add: applySearch_def)
qed

lemma getIssues_throws:
  "searchActive f \<Longrightarrow> \<not> labelsPresent s \<Longrightarrow> getIssues f s = Inl TypeError"
  by (simp add: getIssues_def rankedIssues_def labelsPresent_def applySearch_throws)

section \<open>The labels of stored issues\<close>

lemma mapSet_values:
  "set (map snd (mapSet k v ps)) \<subseteq> insert v (set (map snd ps))"
  by (induction ps) auto

lemma labelsPresent_mapSet:
  assumes "labelsPresent s" "labels v \<noteq> None"
  shows "labelsPresent (s\<lparr>issues := mapSet k v (issues s)\<rparr>)"
proof -
  have old: "\<forall>i \<in> set (map snd (issues s)). labels i \<noteq> None"
    using assms(1) by (simp add: labelsPresent_def issueValues_def list_all_iff)
  have "labels i \<noteq> None" if "i \<in> set (map snd (mapSet k v (issues s)))" for i
  proof -
    from that mapSet_values [of k v "issues s"]
    have "i \<in> insert v (set (map snd (issues s)))" by (rule subsetD [rotated])
    with old assms(2) show ?thesis by blast
  qed
  then show ?thesis
    by (simp add: labelsPresent_def issueValues_def list_all_iff)
qed

lemma map_of_values: "map_of ps k = Some v \<Longrightarrow> v \<in> set (map snd ps)"
  by (induction ps) (auto split: if_splits)

lemma labelsPresent_empty: "labelsPresent emptyStorage"
  by (simp add: labelsPresent_def issueValues_def emptyStorage_def)

lemma labelsPresent_createIssue:
  "labelsPresent s \<Longrightarrow> labelsPresent (snd (createIssue newId now insertIssue s))"
  by (simp add: createIssue_def Let_def labelsPresent_mapSet)

lemma labelsPresent_updateIssue:
  assumes "labelsPresent s"
  shows "labelsPresent (snd (updateIssue now key updateData s))"
proof (cases "map_of (issues s) key")
  case None
  with assms show ?thesis by (simp add: updateIssue_def)
next
  case (Some issue)
  then have "issue \<in> set (issueValues s)"
    by (simp add: issueValues_def map_of_values del: set_map)
  with assms have old: "labels issue \<noteq> None"
    by (auto simp: labelsPresent_def list_all_iff)
  define newLabels where
    "newLabels = (case upd_labels updateData of Some (Some ls) \<Rightarrow> Some ls | _ \<Rightarrow> labels issue)"
  have nl: "newLabels \<noteq> None"
    using old by (simp add: newLabels_def split: option.splits)
  obtain updatedIssue where
    upd: "snd (updateIssue now key updateData s)
            = s\<lparr>issues := mapSet key updatedIssue (issues s)\<rparr>"
    and lab: "labels updatedIssue = newLabels"
    using Some by (simp add: updateIssue_def Let_def newLabels_def)
  from nl lab have "labels updatedIssue \<noteq> None" by simp
  with assms show ?thesis
    unfolding upd by (rule labelsPresent_mapSet)
qed

lemma labelsPresent_runWrites: "labelsPresent s \<Longrightarrow> labelsPresent (runWrites ws s)"
proof (induction ws arbitrary: s)
  case Nil
  then show ?case by simp
next
  case (Cons w ws)
  from Cons.prems have "labelsPresent (runWrite w s)"
    by (cases w) (simp_all add: labelsPresent_createIssue labelsPresent_updateIssue)
  then show ?case by (simp add: Cons.IH)
qed

text \<open>Every store that the two writers build from the empty one has its labels.\<close>

lemma labelsPresent_reachable: "labelsPresent (runWrites ws emptyStorage)"
  by (rule labelsPresent_runWrites [OF labelsPresent_empty])

section \<open>Pages\<close>

lemma validFilters_bounds:
  "validFilters f \<Longrightarrow> 1 \<le> pageOf f \<and> 1 \<le> limitOf f \<and> limitOf f \<le> 100"
  by (auto simp: validFilters_def pageOf_def limitOf_def split: option.splits)

lemma paginate_total: "total (paginate f xs) = int (length xs)"
  by (simp add: paginate_def Let_def)

lemma paginate_items:
  assumes "1 \<le> pageOf f" "1 \<le> limitOf f"
  shows "result_issues (paginate f xs)
           = take (nat (limitOf f)) (drop (nat ((pageOf f - 1) * limitOf f)) xs)"
proof -
  have "0 \<le> (pageOf f - 1) * limitOf f" using assms by simp
  moreover have "0 \<le> limitOf f" using assms by simp
  ultimately show ?thesis
    by (simp add: paginate_def Let_def slice_page)
qed

lemma int_min_diff:
  "int (min L (n - S)) = min (int L) (max 0 (int n - int S))"
  by (auto simp: min_def max_def)

lemma paginate_length:
  assumes "1 \<le> pageOf f" "1 \<le> limitOf f"
  shows "int (length (result_issues (paginate f xs)))
           = min (limitOf f) (max 0 (int (length xs) - (pageOf f - 1) * limitOf f))"
proof -
  define S where "S = nat ((pageOf f - 1) * limitOf f)"
  define L where "L = nat (limitOf f)"
  have S: "int S = (pageOf f - 1) * limitOf f" using assms by (simp add: S_def)
  have L: "int L = limitOf f" using assms by (simp add: L_def)
  have "length (result_issues (paginate f xs)) = min L (length xs - S)"
    using assms by (simp add: paginate_items S_def L_def min.commute)
  then have "int (length (result_issues (paginate f xs))) = int (min L (length xs - S))"
    by simp
  also have "\<dots> = min (int L) (max 0 (int (length xs) - int S))"
    by (rule int_min_diff)
  finally show ?thesis by (simp only: S L)
qed

lemma paginate_sorted:
  "sorted_wrt R xs \<Longrightarrow> sorted_wrt R (result_issues (paginate f xs))"
  by (simp add: paginate_def slice_def Let_def sorted_wrt_take sorted_wrt_drop)

lemma paginate_subset: "set (result_issues (paginate f xs)) \<subseteq> set xs"
proof -
  have "set (take n (drop k xs)) \<subseteq> set xs" for n k
    by (meson set_take_subset set_drop_subset subset_trans)
  then show ?thesis by (simp add: paginate_def slice_def Let_def)
qed

lemma concat_chunks: "concat (map (\<lambda>k. take L (drop (k * L) xs)) [0..<n]) = take (n * L) xs"
proof (induction n)
  case 0
  show ?case by simp
next
  case (Suc n)
  have "take (n * L + L) xs = take (n * L) xs @ take L (drop (n * L) xs)"
    by (rule take_add)
  with Suc show ?case by (simp add: add.commute)
qed

lemma ceil_div_covers:
  assumes "0 < (L::nat)"
  shows "t \<le> ((t + L - 1) div L) * L"
proof -
  have "(t + L - 1) div L * L + (t + L - 1) mod L = t + L - 1" by simp
  moreover have "(t + L - 1) mod L < L" using assms by simp
  ultimately show ?thesis by linarith
qed

lemma pageOf_update: "1 \<le> p \<Longrightarrow> pageOf (f\<lparr>page := Some p\<rparr>) = p"
  by (simp add: pageOf_def)

lemma limitOf_page_update: "limitOf (f\<lparr>page := x\<rparr>) = limitOf f"
  by (simp add: limitOf_def)

lemma searchActive_page_update: "searchActive (f\<lparr>page := x\<rparr>) = searchActive f"
  by (simp add: searchActive_def)

lemma rankedIssues_page_update: "rankedIssues (f\<lparr>page := x\<rparr>) s = rankedIssues f s"
  by (simp add: rankedIssues_def applySearch_def searchActive_def searchTerm_def
        applyLanguages_def applyDifficulty_def applySize_def sortByOf_def
        cong: sum.case_cong)

lemma rankedRecommended_page_update:
  "rankedRecommended now u (f\<lparr>page := x\<rparr>) s = rankedRecommended now u f s"
  by (simp add: rankedRecommended_def filteredRecommended_def applySearchOrAffinity_def
        searchActive_def searchTerm_def applyLanguages_def applyDifficulty_def applySize_def
        cong: sum.case_cong)

lemma page_chunk:
  assumes "1 \<le> limitOf f"
  shows "result_issues (paginate (f\<lparr>page := Some (int k + 1)\<rparr>) xs)
           = take (nat (limitOf f)) (drop (k * nat (limitOf f)) xs)"
proof -
  have p: "pageOf (f\<lparr>page := Some (int k + 1)\<rparr>) = int k + 1"
    by (simp add: pageOf_update)
  have "nat (int k * limitOf f) = k * nat (limitOf f)"
    using assms by (simp add: nat_mult_distrib)
  then show ?thesis
    using assms by (simp add: paginate_items p limitOf_page_update)
qed

lemma pages_concat:
  assumes "1 \<le> limitOf f"
  shows "concat (map (\<lambda>k. result_issues (paginate (f\<lparr>page := Some (int k + 1)\<rparr>) xs))
           [0..<nat ((int (length xs) + limitOf f - 1) div limitOf f)]) = xs"
proof -
  define L where "L = nat (limitOf f)"
  have L: "0 < L" "int L = limitOf f" using assms by (simp_all add: L_def)
  have "int (length xs) + limitOf f - 1 = int (length xs + L - 1)"
    using L by (simp add: of_nat_diff)
  then have "(int (length xs) + limitOf f - 1) div limitOf f = int ((length xs + L - 1) div L)"
    using L by (simp add: zdiv_int)
  then have n: "nat ((int (length xs) + limitOf f - 1) div limitOf f) = (length xs + L - 1) div L"
    by simp
  have "concat (map (\<lambda>k. result_issues (paginate (f\<lparr>page := Some (int k + 1)\<rparr>) xs))
           [0..<(length xs + L - 1) div L])
        = concat (map (\<lambda>k. take L (drop (k * L) xs)) [0..<(length xs + L - 1) div L])"
    using assms by (simp add: page_chunk L_def)
  also have "\<dots> = take ((length xs + L - 1) div L * L) xs"
    by (rule concat_chunks)
  also have "\<dots> = xs"
    using ceil_div_covers [OF L(1), of "length xs"] by simp
  finally show ?thesis by (simp only: n)
qed

lemma page_beyond_end:
  assumes "1 \<le> limitOf f" "1 \<le> p" "int (length xs) \<le> (p - 1) * limitOf f"
  shows "paginate (f\<lparr>page := Some p\<rparr>) xs = \<lparr>result_issues = [], total = int (length xs)\<rparr>"
proof -
  have "result_issues (paginate (f\<lparr>page := Some p\<rparr>) xs) = []"
    using assms by (simp add: paginate_items pageOf_update limitOf_page_update)
  moreover have "total (paginate (f\<lparr>page := Some p\<rparr>) xs) = int (length xs)"
    by (rule paginate_total)
  ultimately show ?thesis by (cases "paginate (f\<lparr>page := Some p\<rparr>) xs") simp
qed

lemma pages_cover:
  assumes "1 \<le> limitOf f"
  shows "\<exists>pages. length pages = nat ((int (length xs) + limitOf f - 1) div limitOf f) \<and>
           (\<forall>k < length pages. pages ! k = paginate (f\<lparr>page := Some (int k + 1)\<rparr>) xs) \<and>
           concat (map result_issues pages) = xs"
proof -
  let ?n = "nat ((int (length xs) + limitOf f - 1) div limitOf f)"
  let ?pages = "map (\<lambda>k. paginate (f\<lparr>page := Some (int k + 1)\<rparr>) xs) [0..<?n]"
  have "concat (map result_issues ?pages) = xs"
    using pages_concat [OF assms, of xs] by (simp add: comp_def)
  moreover have "length ?pages = ?n" by simp
  moreover have "\<forall>k < length ?pages. ?pages ! k = paginate (f\<lparr>page := Some (int k + 1)\<rparr>) xs"
    by simp
  ultimately show ?thesis by blast
qed

lemma length_ranked: "length (sort_js (compareIssues m) xs) = length xs"
  by (simp add: compareIssues_key length_sort_js)

lemma length_ranked_score: "length (sort_js (compareScore now u) xs) = length xs"
  by (simp add: compareScore_key length_sort_js)

lemma getIssues_page:
  assumes "labelsPresent s \<or> \<not> searchActive f"
  shows "getIssues (f\<lparr>page := x\<rparr>) s
           = Inr (paginate (f\<lparr>page := x\<rparr>) (sort_js (compareIssues (sortByOf f)) (keptIssues f s)))"
  by (simp add: getIssues_def rankedIssues_page_update rankedIssues_eq [OF assms])

lemma getRecommended_page:
  assumes "labelsPresent s \<or> \<not> searchActive f" "getUser s userId = Some u"
  shows "getRecommendedIssuesForUser now userId (f\<lparr>page := x\<rparr>) s
           = Inr (paginate (f\<lparr>page := x\<rparr>)
                   (sort_js (compareScore now u) (map (markRecommended u) (keptRecommended u f s))))"
  using assms(2)
  by (simp add: getRecommendedIssuesForUser_def rankedRecommended_page_update
        rankedRecommended_eq [OF assms(1)])

lemma mset_ranked: "mset (sort_js (compareIssues m) xs) = mset xs"
  by (simp add: compareIssues_key mset_sort_js)

lemma mset_ranked_score: "mset (sort_js (compareScore now u) xs) = mset xs"
  by (simp add: compareScore_key mset_sort_js)

lemma sort_js_score_sorted:
  "sorted_wrt (\<lambda>a b. calculateRecommendationScore now a u \<ge> calculateRecommendationScore now b u)
     (sort_js (compareScore now u) xs)"
  unfolding compareScore_key by (rule sort_js_desc)

lemma rankedRecommended_sortBy_update:
  "rankedRecommended now u (f\<lparr>sortBy := m\<rparr>) s = rankedRecommended now u f s"
  by (simp add: rankedRecommended_def filteredRecommended_def applySearchOrAffinity_def
        searchActive_def searchTerm_def applyLanguages_def applyDifficulty_def applySize_def
        cong: sum.case_cong)

lemma paginate_sortBy_update: "paginate (f\<lparr>sortBy := m\<rparr>) xs = paginate f xs"
  by (simp add: paginate_def pageOf_def limitOf_def)

lemma markRecommended_fields:
  "language (markRecommended u i) = language i"
  "difficulty (markRecommended u i) = difficulty i"
  "repositoryStars (markRecommended u i) = repositoryStars i"
  "labels (markRecommended u i) = labels i"
  "title (markRecommended u i) = title i"
  "body (markRecommended u i) = body i"
  "repositoryName (markRecommended u i) = repositoryName i"
  "repositoryOwner (markRecommended u i) = repositoryOwner i"
  "updatedAt (markRecommended u i) = updatedAt i"
  by (simp_all add: markRecommended_def)

lemma keeps_markRecommended:
  "keepsLanguage f (markRecommended u i) = keepsLanguage f i"
  "keepsDifficulty f (markRecommended u i) = keepsDifficulty f i"
  "keepsSize f (markRecommended u i) = keepsSize f i"
  "keepsAffinity v f (markRecommended u i) = keepsAffinity v f i"
  "matchesSearch t (markRecommended u i) = matchesSearch t i"
  by (simp_all add: keepsLanguage_def keepsDifficulty_def keepsSize_def keepsAffinity_def
        matchesSearch_def markRecommended_fields cong: option.case_cong)

lemma keepsSearch_markRecommended: "keepsSearch f (markRecommended u i) = keepsSearch f i"
  by (simp add: keepsSearch_def keeps_markRecommended)

lemma set_ranked_score: "set (sort_js (compareScore now u) xs) = set xs"
  by (simp add: compareScore_key set_sort_js)

lemma getRecommended_eq:
  assumes "labelsPresent s \<or> \<not> searchActive f" "getUser s userId = Some u"
  shows "getRecommendedIssuesForUser now userId f s
           = Inr (paginate f
                   (sort_js (compareScore now u) (map (markRecommended u) (keptRecommended u f s))))"
  using assms(2)
  by (simp add: getRecommendedIssuesForUser_def rankedRecommended_eq [OF assms(1)])

lemma getIssues_eq:
  assumes "labelsPresent s \<or> \<not> searchActive f"
  shows "getIssues f s = Inr (paginate f (sort_js (compareIssues (sortByOf f)) (keptIssues f s)))"
  by (simp add: getIssues_def rankedIssues_eq [OF assms])

lemma recommended_items_kept:
  assumes "x \<in> set (result_issues (paginate f
                   (sort_js (compareScore now u) (map (markRecommended u) (keptRecommended u f s)))))"
  shows "\<exists>i \<in> set (keptRecommended u f s). x = markRecommended u i"
proof -
  from assms paginate_subset
  have "x \<in> set (sort_js (compareScore now u) (map (markRecommended u) (keptRecommended u f s)))"
    by blast
  then show ?thesis by (auto simp: set_ranked_score)
qed

lemma applyAffinity_none:
  "topLanguages u = None \<or> topLanguages u = Some [] \<Longrightarrow> applyAffinity u xs = xs"
  by (auto simp: applyAffinity_def)

lemma keepsAffinity_none:
  "topLanguages u = None \<or> topLanguages u = Some [] \<Longrightarrow> keepsAffinity u f i"
  by (auto simp: keepsAffinity_def)

lemma searchActive_iff: "searchActive f \<longleftrightarrow> (\<exists>q. search f = Some q \<and> trim q \<noteq> [])"
proof -
  have "trim [] = []" by (simp add: trim_def)
  then have "trim q \<noteq> [] \<Longrightarrow> q \<noteq> []" for q by auto
  then show ?thesis by (auto simp: searchActive_def split: option.splits)
qed

lemma matchesSearch_fields:
  assumes "labels i = Some ls"
  shows "matchesSearch t i = Inr
     ((\<exists>a b. toLowerCase (title i) = a @ t @ b) \<or>
      (\<exists>bd a b. body i = Some bd \<and> toLowerCase bd = a @ t @ b) \<or>
      (\<exists>a b. toLowerCase (repositoryName i) = a @ t @ b) \<or>
      (\<exists>a b. toLowerCase (repositoryOwner i) = a @ t @ b) \<or>
      (\<exists>l a b. language i = Some l \<and> toLowerCase l = a @ t @ b) \<or>
      (\<exists>label \<in> set ls. \<exists>a b. toLowerCase label = a @ t @ b))"
proof -
  have b: "(case body i of None \<Rightarrow> False | Some b \<Rightarrow> includes_str (toLowerCase b) t)
            = (\<exists>bd a b. body i = Some bd \<and> toLowerCase bd = a @ t @ b)"
    by (auto simp: includes_str_iff split: option.splits)
  have l: "(case language i of None \<Rightarrow> False | Some l \<Rightarrow> includes_str (toLowerCase l) t)
            = (\<exists>l a b. language i = Some l \<and> toLowerCase l = a @ t @ b)"
    by (auto simp: includes_str_iff split: option.splits)
  have ls: "list_ex (\<lambda>label. includes_str (toLowerCase label) t) ls
            = (\<exists>label \<in> set ls. \<exists>a b. toLowerCase label = a @ t @ b)"
    by (simp add: list_ex_iff includes_str_iff)
  show ?thesis
    unfolding matchesSearch_def Let_def b l ls
    using assms by (simp add: includes_str_iff list_ex_iff)
qed


section \<open>The machine and the store\<close>

lemma upt_shift: "length h # map (\<lambda>k. Suc (length h + k)) [0..<n] = map (\<lambda>k. length h + k) [0..<Suc n]"
proof -
  have "[0..<Suc n] = 0 # map Suc [0..<n]"
    by (simp add: upt_conv_Cons map_Suc_upt del: upt_Suc)
  then show ?thesis by (simp add: comp_def del: upt_Suc)
qed

lemma mapCopy_eq:
  "\<forall>a \<in> set as. a < length h \<Longrightarrow>
   mapCopy g as h = (map (\<lambda>k. length h + k) [0..<length as], h @ map (\<lambda>a. g (h ! a)) as)"
proof (induction as arbitrary: h)
  case Nil
  show ?case by simp
next
  case (Cons a as)
  let ?h1 = "h @ [g (h ! a)]"
  from Cons.prems have lt: "\<forall>b \<in> set as. b < length h" by simp
  then have "\<forall>b \<in> set as. b < length ?h1" by auto
  then have IH: "mapCopy g as ?h1
      = (map (\<lambda>k. length ?h1 + k) [0..<length as], ?h1 @ map (\<lambda>b. g (?h1 ! b)) as)"
    by (rule Cons.IH)
  have same: "map (\<lambda>b. g (?h1 ! b)) as = map (\<lambda>b. g (h ! b)) as"
    using lt by (simp add: nth_append)
  show ?case
    using upt_shift [of h "length as"]
    by (simp add: alloc_def IH same del: upt_Suc)
qed

lemma filterE_subset: "filterE p xs = Inr ys \<Longrightarrow> set ys \<subseteq> set xs"
  by (induction xs arbitrary: ys) (auto split: sum.splits if_splits)

lemma filterE_map:
  "filterE p (map g as) = map_sum id (map g) (filterE (\<lambda>a. p (g a)) as)"
  by (induction as) (auto split: sum.splits)

lemma insertBy_map:
  "map g (insertBy (\<lambda>a b. c (g a) (g b)) x as) = insertBy c (g x) (map g as)"
  by (induction as) auto

lemma sort_js_map: "map g (sort_js (\<lambda>a b. c (g a) (g b)) as) = sort_js c (map g as)"
  by (induction as) (simp_all add: insertBy_map)

lemma slice_map: "map g (slice as i j) = slice (map g as) i j"
  by (simp add: slice_def Let_def take_map drop_map)

lemma set_slice: "set (slice as i j) \<subseteq> set as"
proof -
  have "set (take n (drop k as)) \<subseteq> set as" for n k
    by (meson set_take_subset set_drop_subset subset_trans)
  then show ?thesis by (simp add: slice_def Let_def)
qed

lemma set_insertBy: "set (insertBy c x as) = insert x (set as)"
  by (induction as) auto

lemma set_sort_js_any: "set (sort_js c as) = set as"
  by (induction as) (simp_all add: set_insertBy)

lemma applyLanguages_h_map:
  "map ((!) h) (applyLanguages_h h f as) = applyLanguages f (map ((!) h) as)"
  by (simp add: applyLanguages_h_def applyLanguages_def filter_map comp_def split: option.splits)

lemma applyDifficulty_h_map:
  "map ((!) h) (applyDifficulty_h h f as) = applyDifficulty f (map ((!) h) as)"
  by (simp add: applyDifficulty_h_def applyDifficulty_def filter_map comp_def split: option.splits)

lemma applySize_h_map:
  "map ((!) h) (applySize_h h f as) = applySize f (map ((!) h) as)"
  by (simp add: applySize_h_def applySize_def filter_map comp_def split: option.splits)

lemma applyAffinity_h_map:
  "map ((!) h) (applyAffinity_h h u as) = applyAffinity u (map ((!) h) as)"
  by (simp add: applyAffinity_h_def applyAffinity_def filter_map comp_def split: option.splits)

lemma apply_h_subset:
  "set (applyLanguages_h h f as) \<subseteq> set as"
  "set (applyDifficulty_h h f as) \<subseteq> set as"
  "set (applySize_h h f as) \<subseteq> set as"
  "set (applyAffinity_h h u as) \<subseteq> set as"
  by (auto simp: applyLanguages_h_def applyDifficulty_h_def applySize_h_def applyAffinity_h_def
           split: option.splits)

lemma paginate_h_map:
  "resultOf h (paginate_h f as) = paginate f (map ((!) h) as)"
  by (simp add: resultOf_def paginate_h_def paginate_def Let_def slice_map)

lemma refs_paginate_h: "set (refs (paginate_h f as)) \<subseteq> set as"
  by (simp add: paginate_h_def Let_def set_slice)

lemma issueValues_storeOf: "issueValues (storeOf m) = map ((!) (m_heap m)) (heapValues m)"
  by (simp add: issueValues_def storeOf_def heapValues_def comp_def case_prod_beta)

lemma getIssues_h_refines:
  "map_sum id (resultOf (m_heap m)) (fst (getIssues_h f m)) = getIssues f (storeOf m)"
proof -
  let ?h = "m_heap m"
  have s: "applySearch f (map ((!) ?h) (heapValues m))
             = map_sum id (map ((!) ?h)) (applySearch_h ?h f (heapValues m))"
    by (simp add: applySearch_def applySearch_h_def filterE_map)
  show ?thesis
  proof (cases "applySearch_h ?h f (heapValues m)")
    case (Inl e)
    then show ?thesis
      by (simp add: getIssues_h_def Let_def getIssues_def rankedIssues_def issueValues_storeOf s)
  next
    case (Inr as)
    then show ?thesis
      by (simp add: getIssues_h_def Let_def getIssues_def rankedIssues_def issueValues_storeOf s
            paginate_h_map sort_js_map [of "(!) (m_heap m)" "compareIssues (sortByOf f)"]
            applySize_h_map applyDifficulty_h_map
            applyLanguages_h_map)
  qed
qed

lemma getIssues_h_frame: "snd (getIssues_h f m) = m"
  by (simp add: getIssues_h_def Let_def split: sum.splits)

lemma refs_paginate_sorted: "set (refs (paginate_h f (sort_js c as))) \<subseteq> set as"
  using refs_paginate_h [of f "sort_js c as"] by (simp add: set_sort_js_any)

lemma getIssues_h_refs:
  assumes "fst (getIssues_h f m) = Inr r"
  shows "set (refs r) \<subseteq> set (heapValues m)"
proof -
  let ?h = "m_heap m"
  from assms obtain as where
    as: "applySearch_h ?h f (heapValues m) = Inr as"
    and r: "r = paginate_h f
                  (sort_js (\<lambda>a b. compareIssues (sortByOf f) (?h ! a) (?h ! b))
                     (applySize_h ?h f (applyDifficulty_h ?h f (applyLanguages_h ?h f as))))"
    by (auto simp: getIssues_h_def Let_def split: sum.splits)
  from as have "set as \<subseteq> set (heapValues m)"
    by (auto simp: applySearch_h_def dest: filterE_subset split: if_splits)
  moreover have "set (applySize_h ?h f (applyDifficulty_h ?h f (applyLanguages_h ?h f as)))
                   \<subseteq> set as"
    by (meson apply_h_subset(1,2,3) subset_trans)
  moreover have "set (refs r)
      \<subseteq> set (applySize_h ?h f (applyDifficulty_h ?h f (applyLanguages_h ?h f as)))"
    unfolding r by (rule refs_paginate_sorted)
  ultimately show ?thesis by blast
qed


lemma getRecommended_h_unknown:
  "map_of (m_users m) userId = None \<Longrightarrow>
   getRecommendedIssuesForUser_h now userId f m = (Inr \<lparr>refs = [], ref_total = 0\<rparr>, m)"
  by (simp add: getRecommendedIssuesForUser_h_def)

lemma getRecommended_h_run:
  assumes wf: "wellFormed m"
      and u: "map_of (m_users m) userId = Some u"
      and as: "applySearchOrAffinity_h (m_heap m) u f (heapValues m) = Inr as"
  defines "kept \<equiv> applySize_h (m_heap m) f
                    (applyDifficulty_h (m_heap m) f (applyLanguages_h (m_heap m) f as))"
  defines "h' \<equiv> m_heap m @ map (\<lambda>a. markRecommended u (m_heap m ! a)) kept"
  defines "rs \<equiv> map (\<lambda>k. length (m_heap m) + k) [0..<length kept]"
  shows "getRecommendedIssuesForUser_h now userId f m
           = (Inr (paginate_h f (sort_js (\<lambda>a b. compareScore now u (h' ! a) (h' ! b)) rs)),
              m\<lparr>m_heap := h'\<rparr>)"
proof -
  from as have "set as \<subseteq> set (heapValues m)"
    by (auto simp: applySearchOrAffinity_h_def dest: filterE_subset split: if_splits
             intro: subsetD [OF apply_h_subset(4)])
  moreover have "set kept \<subseteq> set as"
    unfolding kept_def by (meson apply_h_subset(1,2,3) subset_trans)
  moreover from wf have "\<forall>a \<in> set (heapValues m). a < length (m_heap m)"
    by (simp add: wellFormed_def heapValues_def list_all_iff)
  ultimately have "\<forall>a \<in> set kept. a < length (m_heap m)" by blast
  then have "mapCopy (markRecommended u) kept (m_heap m) = (rs, h')"
    unfolding rs_def h'_def by (rule mapCopy_eq)
  with u as show ?thesis
    by (simp add: getRecommendedIssuesForUser_h_def Let_def kept_def)
qed

lemma applySearchOrAffinity_h_map:
  "applySearchOrAffinity u f (map ((!) h) as)
     = map_sum id (map ((!) h)) (applySearchOrAffinity_h h u f as)"
  by (simp add: applySearchOrAffinity_def applySearchOrAffinity_h_def filterE_map
        applyAffinity_h_map)

lemma getUser_storeOf: "getUser (storeOf m) userId = map_of (m_users m) userId"
  by (simp add: getUser_def storeOf_def)

lemma nth_copies:
  "map ((!) (h @ cs)) (map (\<lambda>k. length h + k) [0..<length cs]) = cs"
  by (simp add: map_nth comp_def)

lemma getRecommended_h_refines:
  assumes "wellFormed m"
  shows "map_sum id (resultOf (m_heap (snd (getRecommendedIssuesForUser_h now userId f m))))
           (fst (getRecommendedIssuesForUser_h now userId f m))
         = getRecommendedIssuesForUser now userId f (storeOf m)"
proof (cases "map_of (m_users m) userId")
  case None
  then show ?thesis
    by (simp add: getRecommended_h_unknown getRecommendedIssuesForUser_def getUser_storeOf
          resultOf_def)
next
  case (Some u)
  let ?h = "m_heap m"
  show ?thesis
  proof (cases "applySearchOrAffinity_h ?h u f (heapValues m)")
    case (Inl e)
    then have "getRecommendedIssuesForUser_h now userId f m = (Inl e, m)"
      using Some by (simp add: getRecommendedIssuesForUser_h_def Let_def)
    moreover have "applySearchOrAffinity u f (issueValues (storeOf m)) = Inl e"
      using Inl by (simp add: issueValues_storeOf applySearchOrAffinity_h_map)
    ultimately show ?thesis
      using Some
      by (simp add: getRecommendedIssuesForUser_def getUser_storeOf rankedRecommended_def
            filteredRecommended_def)
  next
    case (Inr as)
    define kept where "kept = applySize_h ?h f (applyDifficulty_h ?h f (applyLanguages_h ?h f as))"
    define cs where "cs = map (\<lambda>a. markRecommended u (?h ! a)) kept"
    define rs where "rs = map (\<lambda>k. length ?h + k) [0..<length kept]"
    have run: "getRecommendedIssuesForUser_h now userId f m
        = (Inr (paginate_h f (sort_js (\<lambda>a b. compareScore now u ((?h @ cs) ! a) ((?h @ cs) ! b)) rs)),
           m\<lparr>m_heap := ?h @ cs\<rparr>)"
      unfolding cs_def rs_def kept_def
      by (rule getRecommended_h_run [OF assms Some Inr])
    have "length cs = length kept" by (simp add: cs_def)
    then have deref: "map ((!) (?h @ cs)) rs = cs"
      unfolding rs_def using nth_copies [of ?h cs] by simp
    have keptv: "map ((!) ?h) kept
        = applySize f (applyDifficulty f (applyLanguages f (map ((!) ?h) as)))"
      by (simp add: kept_def applySize_h_map applyDifficulty_h_map applyLanguages_h_map)
    have csv: "cs = map (markRecommended u) (map ((!) ?h) kept)"
      by (simp add: cs_def comp_def)
    have pure: "getRecommendedIssuesForUser now userId f (storeOf m)
        = Inr (paginate f (sort_js (compareScore now u) cs))"
      using Some Inr
      by (simp add: getRecommendedIssuesForUser_def getUser_storeOf rankedRecommended_def
            filteredRecommended_def issueValues_storeOf applySearchOrAffinity_h_map csv keptv)
    have "resultOf (?h @ cs)
            (paginate_h f (sort_js (\<lambda>a b. compareScore now u ((?h @ cs) ! a) ((?h @ cs) ! b)) rs))
          = paginate f (sort_js (compareScore now u) cs)"
      by (simp add: paginate_h_map sort_js_map [of "(!) (?h @ cs)" "compareScore now u"] deref)
    with run pure show ?thesis by simp
  qed
qed

section \<open>The copy in server/storage.ts\<close>

text \<open>
  What the copy in \<open>server/storage.ts\<close> does: its personalized result is one page of
  its \<open>getIssues\<close>, sorted again by score, with the length of that page as the total;
  the narrowing to the user's languages does not reach the result.
\<close>

lemma getRecommended_v0_is_page_of_getIssues:
  assumes "getUser s userId = Some u"
  shows "getRecommendedIssuesForUser_v0 now userId f s
           = \<lparr>result_issues = sort_js (compareScore now u)
                                (map (markRecommended u) (result_issues (getIssues_v0 f s))),
              total = int (length (result_issues (getIssues_v0 f s)))\<rparr>"
  using assms by (simp add: getRecommendedIssuesForUser_v0_def Let_def length_ranked_score)

lemma getRecommended_v0_sorted:
  assumes "getUser s userId = Some u"
  shows "sorted_wrt (\<lambda>a b. calculateRecommendationScore now a u
                            \<ge> calculateRecommendationScore now b u)
           (result_issues (getRecommendedIssuesForUser_v0 now userId f s))"
  using assms by (simp add: getRecommended_v0_is_page_of_getIssues sort_js_score_sorted)

lemma getRecommended_v0_unknown:
  "getUser s userId = None \<Longrightarrow>
   getRecommendedIssuesForUser_v0 now userId f s = \<lparr>result_issues = [], total = 0\<rparr>"
  by (simp add: getRecommendedIssuesForUser_v0_def)

lemma getRecommended_v0_sample:
  "map issue_id (result_issues (getRecommendedIssuesForUser_v0 5000 ''u1'' twoPerPage sampleStore))
     = [''Fresh'', ''Java thing''] \<and>
   total (getRecommendedIssuesForUser_v0 5000 ''u1'' twoPerPage sampleStore) = 2 \<and>
   total (getIssues_v0 twoPerPage sampleStore) = 3"
  by code_simp

section \<open>The size buckets\<close>

text \<open>
  C5. Whatever the other filters are, the repository size step keeps exactly the rows of
  the chosen bucket, the stars of a row counting as 0 when the column is null: under
  100 for "small", from 100 up to but not including 1000 for "medium", 1000 and above
  for "large", and every row for "any". A row with exactly 100 stars passes "medium" and
  not "small"; a row with exactly 1000 stars passes "large" and not "medium".
\<close>

theorem size_buckets_half_open:
  "applySize (f\<lparr>repositorySize := Some Small\<rparr>) xs
     = filter (\<lambda>i. orZero (repositoryStars i) < 100) xs \<and>
   applySize (f\<lparr>repositorySize := Some Medium\<rparr>) xs
     = filter (\<lambda>i. 100 \<le> orZero (repositoryStars i) \<and> orZero (repositoryStars i) < 1000) xs \<and>
   applySize (f\<lparr>repositorySize := Some Large\<rparr>) xs
     = filter (\<lambda>i. 1000 \<le> orZero (repositoryStars i)) xs \<and>
   applySize (f\<lparr>repositorySize := Some SizeAny\<rparr>) xs = xs \<and>
   applySize (f\<lparr>repositorySize := Some Medium\<rparr>) [i\<lparr>repositoryStars := Some 100\<rparr>]
     = [i\<lparr>repositoryStars := Some 100\<rparr>] \<and>
   applySize (f\<lparr>repositorySize := Some Small\<rparr>) [i\<lparr>repositoryStars := Some 100\<rparr>] = [] \<and>
   applySize (f\<lparr>repositorySize := Some Large\<rparr>) [i\<lparr>repositoryStars := Some 1000\<rparr>]
     = [i\<lparr>repositoryStars := Some 1000\<rparr>] \<and>
   applySize (f\<lparr>repositorySize := Some Medium\<rparr>) [i\<lparr>repositoryStars := Some 1000\<rparr>] = []"
  by (simp add: applySize_def sizeCallback_def [abs_def] orZero_def)

section \<open>The recommendation score\<close>

text \<open>
  C6. The score of an issue for a user is the sum of four bonuses that do not depend on
  each other or on any other issue: 10 when the issue's language is set (neither null
  nor empty) and is one of the user's top languages, 15 when some label, put in lower
  case, is "good first issue", "beginner friendly" or "help wanted", 5 when the
  repository has more than 100 stars, and 3 when the issue was updated less than
  7 times 24 hours before the clock reading. The score is never negative.
\<close>

theorem score_is_sum_of_bonuses:
  "calculateRecommendationScore now i u =
     (if (\<exists>l langs. language i = Some l \<and> l \<noteq> [] \<and> topLanguages u = Some langs \<and> l \<in> set langs)
      then 10 else 0) +
     (if (\<exists>ls l. labels i = Some ls \<and> l \<in> set ls \<and>
            toLowerCase l \<in> {''good first issue'', ''beginner friendly'', ''help wanted''})
      then 15 else 0) +
     (if (\<exists>n. repositoryStars i = Some n \<and> n > 100) then 5 else 0) +
     (if (\<exists>t. updatedAt i = Some t \<and> now - t < 7 * 24 * (60 * 60 * 1000)) then 3 else 0) \<and>
   0 \<le> calculateRecommendationScore now i u"
proof -
  define A where "A \<longleftrightarrow>
    (\<exists>l langs. language i = Some l \<and> l \<noteq> [] \<and> topLanguages u = Some langs \<and> l \<in> set langs)"
  define B where "B \<longleftrightarrow> (\<exists>ls l. labels i = Some ls \<and> l \<in> set ls \<and>
            toLowerCase l \<in> {''good first issue'', ''beginner friendly'', ''help wanted''})"
  define C where "C \<longleftrightarrow> (\<exists>n. repositoryStars i = Some n \<and> n > 100)"
  define D where "D \<longleftrightarrow> (\<exists>t. updatedAt i = Some t \<and> now - t < 7 * 24 * (60 * 60 * 1000))"
  have l: "(truthy (language i) \<and> inTopLanguages u (orEmpty (language i))) = A"
    unfolding A_def
    by (auto simp: truthy_def inTopLanguages_def orEmpty_def includes_arr_def
             split: option.splits)
  have b: "hasBeginnerLabel i = B"
    unfolding B_def
    by (auto simp: hasBeginnerLabel_def beginnerLabels_def includes_arr_def list_ex_iff
             split: option.splits)
  have st: "(case repositoryStars i of None \<Rightarrow> False | Some n \<Rightarrow> n \<noteq> 0 \<and> n > 100) = C"
    unfolding C_def by (auto split: option.splits)
  have r: "(case updatedAt i of None \<Rightarrow> False | Some t \<Rightarrow> t > now - 7 * 24 * 60 * 60 * 1000) = D"
    unfolding D_def by (auto split: option.splits)
  have eq: "calculateRecommendationScore now i u =
      (if A then 10 else 0) + (if B then 15 else 0) + (if C then 5 else 0) + (if D then 3 else 0)"
    unfolding calculateRecommendationScore_def Let_def l b st r by simp
  have nn: "0 \<le> calculateRecommendationScore now i u"
    unfolding eq by simp
  from eq nn show ?thesis
    unfolding A_def B_def C_def D_def by (rule conjI)
qed

section \<open>No query throws on a well-formed store\<close>

text \<open>
  C7. Whatever the filters, a user id that is not in the store makes
  \<open>getRecommendedIssuesForUser\<close> return the empty result with total 0, not an error.
  And when every stored issue has its labels array (or no search is active), both
  \<open>getIssues\<close> and \<open>getRecommendedIssuesForUser\<close> return a result: no path throws.
  Every store that \<open>createIssue\<close> and \<open>updateIssue\<close> build from the empty one is such
  a store.
\<close>

theorem unknown_user_empty_and_no_throw:
  "(getUser s userId = None \<longrightarrow>
      getRecommendedIssuesForUser now userId f s = Inr \<lparr>result_issues = [], total = 0\<rparr>) \<and>
   (labelsPresent s \<or> \<not> searchActive f \<longrightarrow>
      (\<exists>r. getIssues f s = Inr r) \<and> (\<exists>r. getRecommendedIssuesForUser now userId f s = Inr r))"
proof (intro conjI impI)
  assume "getUser s userId = None"
  then show "getRecommendedIssuesForUser now userId f s = Inr \<lparr>result_issues = [], total = 0\<rparr>"
    by (simp add: getRecommendedIssuesForUser_def)
next
  assume ok: "labelsPresent s \<or> \<not> searchActive f"
  show "\<exists>r. getIssues f s = Inr r"
    by (simp add: getIssues_def rankedIssues_eq [OF ok])
next
  assume ok: "labelsPresent s \<or> \<not> searchActive f"
  show "\<exists>r. getRecommendedIssuesForUser now userId f s = Inr r"
    by (simp add: getRecommendedIssuesForUser_def rankedRecommended_eq [OF ok]
          split: option.splits)
qed

theorem unknown_user_empty_and_no_throw_witness:
  "getUser sampleStore ''ghost'' = None \<and>
   getRecommendedIssuesForUser 5000 ''ghost'' (noFilters\<lparr>search := Some ''java''\<rparr>) sampleStore
     = Inr \<lparr>result_issues = [], total = 0\<rparr> \<and>
   labelsPresent sampleStore \<and>
   (\<exists>r. getIssues (noFilters\<lparr>search := Some ''java''\<rparr>) sampleStore = Inr r) \<and>
   (\<exists>r. getRecommendedIssuesForUser 5000 ''u1'' (noFilters\<lparr>search := Some ''java''\<rparr>) sampleStore
          = Inr r)"
proof -
  have u: "getUser sampleStore ''ghost'' = None" by code_simp
  have l: "labelsPresent sampleStore" by code_simp
  from u l
    unknown_user_empty_and_no_throw
      [of sampleStore "''ghost''" 5000 "noFilters\<lparr>search := Some ''java''\<rparr>"]
    unknown_user_empty_and_no_throw
      [of sampleStore "''u1''" 5000 "noFilters\<lparr>search := Some ''java''\<rparr>"]
  show ?thesis by blast
qed

section \<open>Total and page length\<close>

text \<open>
  The copy of the class with the search step. With filters inside the schema's bounds
  and a store on which the search cannot throw, \<open>getIssues\<close> returns as total the number of stored issues that pass the search
  and the three filters, counted before the page is cut, and the page holds
  min(limit, max(0, total - (page - 1) * limit)) issues, so at most limit. For a user
  that is in the store, \<open>getRecommendedIssuesForUser\<close> does the same, the count being
  that of the issues that also pass the narrowing to the user's languages. (For a user
  that is not in the store the result is empty with total 0.)
\<close>

theorem total_counts_rows_before_paging:
  assumes "validFilters f" "labelsPresent s \<or> \<not> searchActive f"
  shows "(\<exists>r. getIssues f s = Inr r \<and>
            total r = int (length (keptIssues f s)) \<and>
            int (length (result_issues r))
              = min (limitOf f) (max 0 (total r - (pageOf f - 1) * limitOf f)) \<and>
            int (length (result_issues r)) \<le> limitOf f) \<and>
         (\<forall>u. getUser s userId = Some u \<longrightarrow>
            (\<exists>r. getRecommendedIssuesForUser now userId f s = Inr r \<and>
               total r = int (length (keptRecommended u f s)) \<and>
               int (length (result_issues r))
                 = min (limitOf f) (max 0 (total r - (pageOf f - 1) * limitOf f)) \<and>
               int (length (result_issues r)) \<le> limitOf f))"
proof -
  from assms(1) have b: "1 \<le> pageOf f" "1 \<le> limitOf f"
    by (simp_all add: validFilters_bounds)
  have page: "total (paginate f xs) = int (length xs) \<and>
      int (length (result_issues (paginate f xs)))
         = min (limitOf f) (max 0 (total (paginate f xs) - (pageOf f - 1) * limitOf f)) \<and>
      int (length (result_issues (paginate f xs))) \<le> limitOf f" for xs
    using paginate_length [OF b, of xs] by (simp add: paginate_total)
  have anon: "getIssues f s = Inr (paginate f (sort_js (compareIssues (sortByOf f)) (keptIssues f s)))"
    by (simp add: getIssues_def rankedIssues_eq [OF assms(2)])
  have rec: "getRecommendedIssuesForUser now userId f s
      = Inr (paginate f (sort_js (compareScore now u) (map (markRecommended u) (keptRecommended u f s))))"
    if "getUser s userId = Some u" for u
    using that by (simp add: getRecommendedIssuesForUser_def rankedRecommended_eq [OF assms(2)])
  show ?thesis
  proof (intro conjI allI impI)
    show "\<exists>r. getIssues f s = Inr r \<and>
            total r = int (length (keptIssues f s)) \<and>
            int (length (result_issues r))
              = min (limitOf f) (max 0 (total r - (pageOf f - 1) * limitOf f)) \<and>
            int (length (result_issues r)) \<le> limitOf f"
      using page [of "sort_js (compareIssues (sortByOf f)) (keptIssues f s)"]
      by (simp add: anon length_ranked)
  next
    fix u assume u: "getUser s userId = Some u"
    show "\<exists>r. getRecommendedIssuesForUser now userId f s = Inr r \<and>
               total r = int (length (keptRecommended u f s)) \<and>
               int (length (result_issues r))
                 = min (limitOf f) (max 0 (total r - (pageOf f - 1) * limitOf f)) \<and>
               int (length (result_issues r)) \<le> limitOf f"
      using page [of "sort_js (compareScore now u) (map (markRecommended u) (keptRecommended u f s))"]
      by (simp add: rec [OF u] length_ranked_score)
  qed
qed

theorem total_counts_rows_before_paging_witness:
  "validFilters pagedFilters \<and> labelsPresent sampleStore \<and>
   getIssues pagedFilters sampleStore
     = Inr \<lparr>result_issues = [sampleIssue ''Old Starter'' (Some ''Python'') [''Good First Issue''] 50 1000],
            total = 3\<rparr> \<and>
   length (keptIssues pagedFilters sampleStore) = 3 \<and>
   getUser sampleStore ''u1'' = Some (sampleUser ''u1'' [''Python'']) \<and>
   getRecommendedIssuesForUser 5000 ''u1'' pagedFilters sampleStore
     = Inr \<lparr>result_issues = [], total = 2\<rparr> \<and>
   length (keptRecommended (sampleUser ''u1'' [''Python'']) pagedFilters sampleStore) = 2"
proof -
  have v: "validFilters pagedFilters" by code_simp
  have l: "labelsPresent sampleStore" by code_simp
  have u: "getUser sampleStore ''u1'' = Some (sampleUser ''u1'' [''Python''])" by code_simp
  have a: "getIssues pagedFilters sampleStore
     = Inr \<lparr>result_issues = [sampleIssue ''Old Starter'' (Some ''Python'') [''Good First Issue''] 50 1000],
            total = 3\<rparr>" by code_simp
  have r: "getRecommendedIssuesForUser 5000 ''u1'' pagedFilters sampleStore
     = Inr \<lparr>result_issues = [], total = 2\<rparr>" by code_simp
  from total_counts_rows_before_paging [OF v, of sampleStore "''u1''" 5000] v l u a r
  show ?thesis by auto
qed

text \<open>
  C3. The total a call returns is to be the number of issues that pass the filters (and,
  for the personalized method, the narrowing), counted before the page is cut. In the
  copy of the class in \<open>server/storage.ts\<close> this holds for \<open>getIssues\<close> and not for
  \<open>getRecommendedIssuesForUser\<close>, which takes the length of the page that \<open>getIssues\<close>
  has cut already. On the sample store, with no filter set, two issues to a page and the
  user without top languages, all three issues pass and \<open>getIssues\<close> gives the total 3,
  but the personalized method gives the total 2. The other copy gives 3.
\<close>

theorem storage_ts_total_is_page_length:
  "getUser sampleStore ''u2'' = Some (sampleUser ''u2'' []) \<and>
   validFilters twoPerPage \<and> pageOf twoPerPage = 1 \<and> limitOf twoPerPage = 2 \<and>
   length (issueValues sampleStore) = 3 \<and>
   applySize twoPerPage (applyDifficulty twoPerPage (applyLanguages twoPerPage
     (issueValues sampleStore))) = issueValues sampleStore \<and>
   total (getIssues_v0 twoPerPage sampleStore) = 3 \<and>
   resultIds (getRecommendedIssuesForUser_v0 5000 ''u2'' twoPerPage sampleStore)
     = [''Fresh'', ''Java thing''] \<and>
   total (getRecommendedIssuesForUser_v0 5000 ''u2'' twoPerPage sampleStore) = 2 \<and>
   returned (getRecommendedIssuesForUser 5000 ''u2'' twoPerPage sampleStore)
     = Some ([''Old Starter'', ''Fresh''], 3)"
  by code_simp

section \<open>The pages together\<close>

text \<open>
  The copy of the class with the search step. With filters inside the schema's bounds
  and a store on which the search cannot throw, and with everything but the page number
  fixed: the pages 1 to
  ceil(total / limit) of \<open>getIssues\<close>, one after the other, are exactly the filtered and
  sorted list, which holds every issue that passes the filters as often as it is stored;
  and a page that starts at or after the end of that list has no issues and is no error.
  The same holds for \<open>getRecommendedIssuesForUser\<close> and a user that is in the store,
  for the marked copies of the issues it keeps, sorted by score.
\<close>

theorem pages_concatenate_to_ranked_list:
  assumes "validFilters f" "labelsPresent s \<or> \<not> searchActive f"
  shows
    "(\<exists>pages.
        length pages
          = nat ((int (length (keptIssues f s)) + limitOf f - 1) div limitOf f) \<and>
        (\<forall>k < length pages. getIssues (f\<lparr>page := Some (int k + 1)\<rparr>) s = Inr (pages ! k)) \<and>
        concat (map result_issues pages)
          = sort_js (compareIssues (sortByOf f)) (keptIssues f s) \<and>
        mset (concat (map result_issues pages)) = mset (keptIssues f s)) \<and>
     (\<forall>p. 1 \<le> p \<and> int (length (keptIssues f s)) \<le> (p - 1) * limitOf f \<longrightarrow>
        getIssues (f\<lparr>page := Some p\<rparr>) s
          = Inr \<lparr>result_issues = [], total = int (length (keptIssues f s))\<rparr>) \<and>
     (\<forall>u. getUser s userId = Some u \<longrightarrow>
        (\<exists>pages.
           length pages
             = nat ((int (length (keptRecommended u f s)) + limitOf f - 1) div limitOf f) \<and>
           (\<forall>k < length pages.
              getRecommendedIssuesForUser now userId (f\<lparr>page := Some (int k + 1)\<rparr>) s
                = Inr (pages ! k)) \<and>
           concat (map result_issues pages)
             = sort_js (compareScore now u) (map (markRecommended u) (keptRecommended u f s)) \<and>
           mset (concat (map result_issues pages))
             = mset (map (markRecommended u) (keptRecommended u f s))) \<and>
        (\<forall>p. 1 \<le> p \<and> int (length (keptRecommended u f s)) \<le> (p - 1) * limitOf f \<longrightarrow>
           getRecommendedIssuesForUser now userId (f\<lparr>page := Some p\<rparr>) s
             = Inr \<lparr>result_issues = [], total = int (length (keptRecommended u f s))\<rparr>))"
proof -
  from assms(1) have lim: "1 \<le> limitOf f" by (simp add: validFilters_bounds)
  define xs where "xs = sort_js (compareIssues (sortByOf f)) (keptIssues f s)"
  have len: "length xs = length (keptIssues f s)" by (simp add: xs_def length_ranked)
  have anon: "getIssues (f\<lparr>page := x\<rparr>) s = Inr (paginate (f\<lparr>page := x\<rparr>) xs)" for x
    unfolding xs_def by (rule getIssues_page [OF assms(2)])
  from pages_cover [OF lim, of xs] obtain pages where
    pages: "length pages = nat ((int (length xs) + limitOf f - 1) div limitOf f)"
      "\<forall>k < length pages. pages ! k = paginate (f\<lparr>page := Some (int k + 1)\<rparr>) xs"
      "concat (map result_issues pages) = xs"
    by blast
  have A: "\<exists>pages.
        length pages
          = nat ((int (length (keptIssues f s)) + limitOf f - 1) div limitOf f) \<and>
        (\<forall>k < length pages. getIssues (f\<lparr>page := Some (int k + 1)\<rparr>) s = Inr (pages ! k)) \<and>
        concat (map result_issues pages)
          = sort_js (compareIssues (sortByOf f)) (keptIssues f s) \<and>
        mset (concat (map result_issues pages)) = mset (keptIssues f s)"
  proof (intro exI [of _ pages] conjI)
    show "length pages = nat ((int (length (keptIssues f s)) + limitOf f - 1) div limitOf f)"
      using pages(1) by (simp only: len)
    show "\<forall>k < length pages. getIssues (f\<lparr>page := Some (int k + 1)\<rparr>) s = Inr (pages ! k)"
      using pages(2) by (simp add: anon)
    show "concat (map result_issues pages)
            = sort_js (compareIssues (sortByOf f)) (keptIssues f s)"
      using pages(3) by (simp only: xs_def)
    show "mset (concat (map result_issues pages)) = mset (keptIssues f s)"
      by (simp only: pages(3) xs_def mset_ranked)
  qed
  have B: "\<forall>p. 1 \<le> p \<and> int (length (keptIssues f s)) \<le> (p - 1) * limitOf f \<longrightarrow>
        getIssues (f\<lparr>page := Some p\<rparr>) s
          = Inr \<lparr>result_issues = [], total = int (length (keptIssues f s))\<rparr>"
  proof (intro allI impI)
    fix p assume "1 \<le> p \<and> int (length (keptIssues f s)) \<le> (p - 1) * limitOf f"
    then have "paginate (f\<lparr>page := Some p\<rparr>) xs
                 = \<lparr>result_issues = [], total = int (length xs)\<rparr>"
      using lim by (intro page_beyond_end) (simp_all only: len)
    then show "getIssues (f\<lparr>page := Some p\<rparr>) s
          = Inr \<lparr>result_issues = [], total = int (length (keptIssues f s))\<rparr>"
      by (simp only: anon len)
  qed
  have C: "(\<exists>pages.
           length pages
             = nat ((int (length (keptRecommended u f s)) + limitOf f - 1) div limitOf f) \<and>
           (\<forall>k < length pages.
              getRecommendedIssuesForUser now userId (f\<lparr>page := Some (int k + 1)\<rparr>) s
                = Inr (pages ! k)) \<and>
           concat (map result_issues pages)
             = sort_js (compareScore now u) (map (markRecommended u) (keptRecommended u f s)) \<and>
           mset (concat (map result_issues pages))
             = mset (map (markRecommended u) (keptRecommended u f s))) \<and>
        (\<forall>p. 1 \<le> p \<and> int (length (keptRecommended u f s)) \<le> (p - 1) * limitOf f \<longrightarrow>
           getRecommendedIssuesForUser now userId (f\<lparr>page := Some p\<rparr>) s
             = Inr \<lparr>result_issues = [], total = int (length (keptRecommended u f s))\<rparr>)"
    if u: "getUser s userId = Some u" for u
  proof -
    define ys where
      "ys = sort_js (compareScore now u) (map (markRecommended u) (keptRecommended u f s))"
    have leny: "length ys = length (keptRecommended u f s)"
      by (simp add: ys_def length_ranked_score)
    have rec: "getRecommendedIssuesForUser now userId (f\<lparr>page := x\<rparr>) s
                 = Inr (paginate (f\<lparr>page := x\<rparr>) ys)" for x
      unfolding ys_def by (rule getRecommended_page [OF assms(2) u])
    from pages_cover [OF lim, of ys] obtain pages where
      pages: "length pages = nat ((int (length ys) + limitOf f - 1) div limitOf f)"
        "\<forall>k < length pages. pages ! k = paginate (f\<lparr>page := Some (int k + 1)\<rparr>) ys"
        "concat (map result_issues pages) = ys"
      by blast
    have C1: "\<exists>pages.
           length pages
             = nat ((int (length (keptRecommended u f s)) + limitOf f - 1) div limitOf f) \<and>
           (\<forall>k < length pages.
              getRecommendedIssuesForUser now userId (f\<lparr>page := Some (int k + 1)\<rparr>) s
                = Inr (pages ! k)) \<and>
           concat (map result_issues pages)
             = sort_js (compareScore now u) (map (markRecommended u) (keptRecommended u f s)) \<and>
           mset (concat (map result_issues pages))
             = mset (map (markRecommended u) (keptRecommended u f s))"
    proof (intro exI [of _ pages] conjI)
      show "length pages
             = nat ((int (length (keptRecommended u f s)) + limitOf f - 1) div limitOf f)"
        using pages(1) by (simp only: leny)
      show "\<forall>k < length pages.
              getRecommendedIssuesForUser now userId (f\<lparr>page := Some (int k + 1)\<rparr>) s
                = Inr (pages ! k)"
        using pages(2) by (simp add: rec)
      show "concat (map result_issues pages)
             = sort_js (compareScore now u) (map (markRecommended u) (keptRecommended u f s))"
        using pages(3) by (simp only: ys_def)
      show "mset (concat (map result_issues pages))
             = mset (map (markRecommended u) (keptRecommended u f s))"
        by (simp only: pages(3) ys_def mset_ranked_score)
    qed
    have C2: "\<forall>p. 1 \<le> p \<and> int (length (keptRecommended u f s)) \<le> (p - 1) * limitOf f \<longrightarrow>
           getRecommendedIssuesForUser now userId (f\<lparr>page := Some p\<rparr>) s
             = Inr \<lparr>result_issues = [], total = int (length (keptRecommended u f s))\<rparr>"
    proof (intro allI impI)
      fix p assume "1 \<le> p \<and> int (length (keptRecommended u f s)) \<le> (p - 1) * limitOf f"
      then have "paginate (f\<lparr>page := Some p\<rparr>) ys
                   = \<lparr>result_issues = [], total = int (length ys)\<rparr>"
        using lim by (intro page_beyond_end) (simp_all only: leny)
      then show "getRecommendedIssuesForUser now userId (f\<lparr>page := Some p\<rparr>) s
             = Inr \<lparr>result_issues = [], total = int (length (keptRecommended u f s))\<rparr>"
        by (simp only: rec leny)
    qed
    from C1 C2 show ?thesis by (rule conjI)
  qed
  from A B C show ?thesis by blast
qed

theorem pages_concatenate_to_ranked_list_witness:
  "validFilters twoPerPage \<and> labelsPresent sampleStore \<and>
   getUser sampleStore ''u1'' = Some (sampleUser ''u1'' [''Python'']) \<and>
   (\<exists>pages. length pages = 2 \<and>
      (\<forall>k < length pages. getIssues (twoPerPage\<lparr>page := Some (int k + 1)\<rparr>) sampleStore
                             = Inr (pages ! k)) \<and>
      concat (map result_issues pages)
        = [sampleIssue ''Fresh'' None [] 2000 5000,
           sampleIssue ''Java thing'' (Some ''Java'') [''bug''] 100 3000,
           sampleIssue ''Old Starter'' (Some ''Python'') [''Good First Issue''] 50 1000]) \<and>
   getIssues (twoPerPage\<lparr>page := Some 3\<rparr>) sampleStore
     = Inr \<lparr>result_issues = [], total = 3\<rparr> \<and>
   (\<exists>pages. length pages = 1 \<and>
      (\<forall>k < length pages.
         getRecommendedIssuesForUser 5000 ''u1'' (twoPerPage\<lparr>page := Some (int k + 1)\<rparr>) sampleStore
           = Inr (pages ! k)) \<and>
      map issue_id (concat (map result_issues pages)) = [''Old Starter'', ''Fresh''])"
proof -
  have v: "validFilters twoPerPage" by code_simp
  have l: "labelsPresent sampleStore" by code_simp
  have u: "getUser sampleStore ''u1'' = Some (sampleUser ''u1'' [''Python''])" by code_simp
  have n: "nat ((int (length (keptIssues twoPerPage sampleStore)) + limitOf twoPerPage - 1)
                div limitOf twoPerPage) = 2" by code_simp
  have xs: "sort_js (compareIssues (sortByOf twoPerPage)) (keptIssues twoPerPage sampleStore)
        = [sampleIssue ''Fresh'' None [] 2000 5000,
           sampleIssue ''Java thing'' (Some ''Java'') [''bug''] 100 3000,
           sampleIssue ''Old Starter'' (Some ''Python'') [''Good First Issue''] 50 1000]"
    by code_simp
  have k: "int (length (keptIssues twoPerPage sampleStore)) = 3" "limitOf twoPerPage = 2"
    by code_simp+
  have m: "nat ((int (length (keptRecommended (sampleUser ''u1'' [''Python'']) twoPerPage sampleStore))
                  + limitOf twoPerPage - 1) div limitOf twoPerPage) = 1" by code_simp
  have ys: "map issue_id (sort_js (compareScore 5000 (sampleUser ''u1'' [''Python'']))
              (map (markRecommended (sampleUser ''u1'' [''Python'']))
                 (keptRecommended (sampleUser ''u1'' [''Python'']) twoPerPage sampleStore)))
            = [''Old Starter'', ''Fresh'']" by code_simp
  note T = pages_concatenate_to_ranked_list [OF v, of sampleStore "''u1''" 5000]
  from T l have A: "\<exists>pages. length pages = 2 \<and>
      (\<forall>k < length pages. getIssues (twoPerPage\<lparr>page := Some (int k + 1)\<rparr>) sampleStore
                             = Inr (pages ! k)) \<and>
      concat (map result_issues pages)
        = [sampleIssue ''Fresh'' None [] 2000 5000,
           sampleIssue ''Java thing'' (Some ''Java'') [''bug''] 100 3000,
           sampleIssue ''Old Starter'' (Some ''Python'') [''Good First Issue''] 50 1000]"
    unfolding n xs by blast
  from T l have "1 \<le> (3::int) \<and> int (length (keptIssues twoPerPage sampleStore)) \<le> (3 - 1) * limitOf twoPerPage \<longrightarrow>
        getIssues (twoPerPage\<lparr>page := Some 3\<rparr>) sampleStore
          = Inr \<lparr>result_issues = [], total = int (length (keptIssues twoPerPage sampleStore))\<rparr>"
    by blast
  then have B: "getIssues (twoPerPage\<lparr>page := Some 3\<rparr>) sampleStore
     = Inr \<lparr>result_issues = [], total = 3\<rparr>"
    unfolding k by simp
  from T l u have "\<exists>pages. length pages
             = nat ((int (length (keptRecommended (sampleUser ''u1'' [''Python'']) twoPerPage sampleStore)) + limitOf twoPerPage - 1) div limitOf twoPerPage) \<and>
      (\<forall>k < length pages.
         getRecommendedIssuesForUser 5000 ''u1'' (twoPerPage\<lparr>page := Some (int k + 1)\<rparr>) sampleStore
           = Inr (pages ! k)) \<and>
      concat (map result_issues pages) = sort_js (compareScore 5000 (sampleUser ''u1'' [''Python'']))
              (map (markRecommended (sampleUser ''u1'' [''Python'']))
                 (keptRecommended (sampleUser ''u1'' [''Python'']) twoPerPage sampleStore))"
    by blast
  then have C: "\<exists>pages. length pages = 1 \<and>
      (\<forall>k < length pages.
         getRecommendedIssuesForUser 5000 ''u1'' (twoPerPage\<lparr>page := Some (int k + 1)\<rparr>) sampleStore
           = Inr (pages ! k)) \<and>
      map issue_id (concat (map result_issues pages)) = [''Old Starter'', ''Fresh'']"
    unfolding m using ys by auto
  from v l u A B C show ?thesis by blast
qed

text \<open>
  C8. The pages 1 to ceil(total / limit) of a query, one after the other, are to be the
  filtered and sorted list, with every issue that passes the filters in it once. In the
  copy of the class in \<open>server/storage.ts\<close> the personalized method does not do this.
  On the sample store, with no filter set, two issues to a page and the user without top
  languages, all three issues pass; page 1 holds two of them with the total 2, so that
  ceil(total / limit) is 1 and the issue with the highest score, which is alone on page
  2, is left out. The other copy has that issue first on page 1 and the total 3 on both
  pages.
\<close>

theorem storage_ts_pages_omit_issue:
  "getUser sampleStore ''u2'' = Some (sampleUser ''u2'' []) \<and>
   validFilters twoPerPage \<and> limitOf twoPerPage = 2 \<and>
   applySize twoPerPage (applyDifficulty twoPerPage (applyLanguages twoPerPage
     (issueValues sampleStore))) = issueValues sampleStore \<and>
   map issue_id (issueValues sampleStore) = [''Old Starter'', ''Fresh'', ''Java thing''] \<and>
   resultIds (getRecommendedIssuesForUser_v0 5000 ''u2'' (twoPerPage\<lparr>page := Some 1\<rparr>) sampleStore)
     = [''Fresh'', ''Java thing''] \<and>
   total (getRecommendedIssuesForUser_v0 5000 ''u2'' (twoPerPage\<lparr>page := Some 1\<rparr>) sampleStore) = 2 \<and>
   (total (getRecommendedIssuesForUser_v0 5000 ''u2'' (twoPerPage\<lparr>page := Some 1\<rparr>) sampleStore)
      + limitOf twoPerPage - 1) div limitOf twoPerPage = 1 \<and>
   resultIds (getRecommendedIssuesForUser_v0 5000 ''u2'' (twoPerPage\<lparr>page := Some 2\<rparr>) sampleStore)
     = [''Old Starter''] \<and>
   total (getRecommendedIssuesForUser_v0 5000 ''u2'' (twoPerPage\<lparr>page := Some 2\<rparr>) sampleStore) = 1 \<and>
   returned (getRecommendedIssuesForUser 5000 ''u2'' (twoPerPage\<lparr>page := Some 1\<rparr>) sampleStore)
     = Some ([''Old Starter'', ''Fresh''], 3) \<and>
   returned (getRecommendedIssuesForUser 5000 ''u2'' (twoPerPage\<lparr>page := Some 2\<rparr>) sampleStore)
     = Some ([''Java thing''], 3)"
  by code_simp

section \<open>The order of the recommended issues\<close>

text \<open>
  C1 says that the personalized query orders its issues by the requested \<open>sortBy\<close>.
  It does not: on the sample store, with the default "recent" and with "stars", the
  issue that comes first was updated earlier and has fewer stars than the one that
  follows it.
\<close>

theorem recommended_order_follows_sortBy_counterexample:
  "getUser sampleStore ''u1'' = Some (sampleUser ''u1'' [''Python'']) \<and>
   sortByOf noFilters = Recent \<and>
   getRecommendedIssuesForUser 5000 ''u1'' noFilters sampleStore
     = Inr \<lparr>result_issues =
          [markRecommended (sampleUser ''u1'' [''Python''])
             (sampleIssue ''Old Starter'' (Some ''Python'') [''Good First Issue''] 50 1000),
           markRecommended (sampleUser ''u1'' [''Python'']) (sampleIssue ''Fresh'' None [] 2000 5000)],
          total = 2\<rparr> \<and>
   getTime (updatedAt (markRecommended (sampleUser ''u1'' [''Python''])
             (sampleIssue ''Old Starter'' (Some ''Python'') [''Good First Issue''] 50 1000)))
     < getTime (updatedAt (markRecommended (sampleUser ''u1'' [''Python''])
                 (sampleIssue ''Fresh'' None [] 2000 5000))) \<and>
   getRecommendedIssuesForUser 5000 ''u1'' (noFilters\<lparr>sortBy := Some Stars\<rparr>) sampleStore
     = Inr \<lparr>result_issues =
          [markRecommended (sampleUser ''u1'' [''Python''])
             (sampleIssue ''Old Starter'' (Some ''Python'') [''Good First Issue''] 50 1000),
           markRecommended (sampleUser ''u1'' [''Python'']) (sampleIssue ''Fresh'' None [] 2000 5000)],
          total = 2\<rparr> \<and>
   orZero (repositoryStars (markRecommended (sampleUser ''u1'' [''Python''])
             (sampleIssue ''Old Starter'' (Some ''Python'') [''Good First Issue''] 50 1000)))
     < orZero (repositoryStars (markRecommended (sampleUser ''u1'' [''Python''])
                 (sampleIssue ''Fresh'' None [] 2000 5000)))"
  by code_simp

text \<open>
  The copy of the method with the search step sorts by score and reads \<open>sortBy\<close>
  nowhere. (The copy in \<open>server/storage.ts\<close> hands \<open>sortBy\<close> to its \<open>getIssues\<close>,
  where it decides which issues are on the page, and then sorts the page by score.)
\<close>

lemma later_copy_sorted_and_sortBy_unread:
  assumes "getUser s userId = Some u"
      and "getRecommendedIssuesForUser now userId f s = Inr r"
  shows "sorted_wrt (\<lambda>a b. calculateRecommendationScore now a u
                            \<ge> calculateRecommendationScore now b u) (result_issues r) \<and>
         getRecommendedIssuesForUser now userId (f\<lparr>sortBy := m\<rparr>) s = Inr r"
proof -
  from assms obtain ys where
    ys: "filteredRecommended u f s = Inr ys"
    and r: "r = paginate f (sort_js (compareScore now u) (map (markRecommended u) ys))"
    by (auto simp: getRecommendedIssuesForUser_def rankedRecommended_def split: sum.splits)
  have "sorted_wrt (\<lambda>a b. calculateRecommendationScore now a u
                            \<ge> calculateRecommendationScore now b u) (result_issues r)"
    unfolding r by (intro paginate_sorted sort_js_score_sorted)
  moreover have "getRecommendedIssuesForUser now userId (f\<lparr>sortBy := m\<rparr>) s = Inr r"
    using assms
    by (simp add: getRecommendedIssuesForUser_def rankedRecommended_sortBy_update
          paginate_sortBy_update cong: sum.case_cong)
  ultimately show ?thesis by (rule conjI)
qed

text \<open>
  C1, amended. For a user that is in the store, the issues \<open>getRecommendedIssuesForUser\<close>
  returns are in descending order of their recommendation score, whatever \<open>sortBy\<close> is
  requested. This holds for both copies of the method.
\<close>

theorem recommended_sorted_by_score:
  assumes "getUser s userId = Some u"
  shows "(\<forall>r. getRecommendedIssuesForUser now userId (f\<lparr>sortBy := m\<rparr>) s = Inr r \<longrightarrow>
            sorted_wrt (\<lambda>a b. calculateRecommendationScore now a u
                               \<ge> calculateRecommendationScore now b u) (result_issues r)) \<and>
         sorted_wrt (\<lambda>a b. calculateRecommendationScore now a u
                            \<ge> calculateRecommendationScore now b u)
           (result_issues (getRecommendedIssuesForUser_v0 now userId (f\<lparr>sortBy := m\<rparr>) s))"
proof (intro conjI allI impI)
  fix r
  assume "getRecommendedIssuesForUser now userId (f\<lparr>sortBy := m\<rparr>) s = Inr r"
  with assms show "sorted_wrt (\<lambda>a b. calculateRecommendationScore now a u
                               \<ge> calculateRecommendationScore now b u) (result_issues r)"
    by (rule later_copy_sorted_and_sortBy_unread [THEN conjunct1])
next
  from assms show "sorted_wrt (\<lambda>a b. calculateRecommendationScore now a u
                            \<ge> calculateRecommendationScore now b u)
           (result_issues (getRecommendedIssuesForUser_v0 now userId (f\<lparr>sortBy := m\<rparr>) s))"
    by (rule getRecommended_v0_sorted)
qed

theorem recommended_sorted_by_score_witness:
  "getUser sampleStore ''u1'' = Some (sampleUser ''u1'' [''Python'']) \<and>
   getRecommendedIssuesForUser 5000 ''u1'' (noFilters\<lparr>sortBy := Some Stars\<rparr>) sampleStore
     = Inr \<lparr>result_issues =
          [markRecommended (sampleUser ''u1'' [''Python''])
             (sampleIssue ''Old Starter'' (Some ''Python'') [''Good First Issue''] 50 1000),
           markRecommended (sampleUser ''u1'' [''Python'']) (sampleIssue ''Fresh'' None [] 2000 5000)],
          total = 2\<rparr> \<and>
   sorted_wrt (\<lambda>a b. calculateRecommendationScore 5000 a (sampleUser ''u1'' [''Python''])
                      \<ge> calculateRecommendationScore 5000 b (sampleUser ''u1'' [''Python'']))
     [markRecommended (sampleUser ''u1'' [''Python''])
        (sampleIssue ''Old Starter'' (Some ''Python'') [''Good First Issue''] 50 1000),
      markRecommended (sampleUser ''u1'' [''Python'']) (sampleIssue ''Fresh'' None [] 2000 5000)] \<and>
   sorted_wrt (\<lambda>a b. calculateRecommendationScore 5000 a (sampleUser ''u1'' [''Python''])
                      \<ge> calculateRecommendationScore 5000 b (sampleUser ''u1'' [''Python'']))
     (result_issues (getRecommendedIssuesForUser_v0 5000 ''u1''
                       (noFilters\<lparr>sortBy := Some Stars\<rparr>) sampleStore))"
proof -
  have u: "getUser sampleStore ''u1'' = Some (sampleUser ''u1'' [''Python''])" by code_simp
  have r: "getRecommendedIssuesForUser 5000 ''u1'' (noFilters\<lparr>sortBy := Some Stars\<rparr>) sampleStore
     = Inr \<lparr>result_issues =
          [markRecommended (sampleUser ''u1'' [''Python''])
             (sampleIssue ''Old Starter'' (Some ''Python'') [''Good First Issue''] 50 1000),
           markRecommended (sampleUser ''u1'' [''Python'']) (sampleIssue ''Fresh'' None [] 2000 5000)],
          total = 2\<rparr>" by code_simp
  from recommended_sorted_by_score [OF u, where now = 5000 and f = noFilters and m = "Some Stars"]
    u r
  show ?thesis by simp
qed

section \<open>Narrowing to the user's languages\<close>

text \<open>
  The copy of the method with the search step. For a user that is in the store and has
  at least one top language, and with no search active: the first step of \<open>getRecommendedIssuesForUser\<close> keeps an issue if and
  only if it has no language set (the column is null or empty) or its language is one
  of the user's top languages. The languages, difficulty and size filters run after it,
  on what it kept. The total returned counts the issues that pass the narrowing and the
  three filters, and every returned issue passes all four.
\<close>

theorem affinity_narrowing_without_search:
  assumes "getUser s userId = Some u" "\<not> searchActive f"
      and "topLanguages u = Some langs" "langs \<noteq> []"
  shows
    "applySearchOrAffinity u f xs
       = Inr (filter (\<lambda>i. language i = None \<or> language i = Some [] \<or>
                          (\<exists>l. language i = Some l \<and> l \<in> set langs)) xs) \<and>
     filteredRecommended u f s
       = Inr (applySize f (applyDifficulty f (applyLanguages f
               (filter (\<lambda>i. language i = None \<or> language i = Some [] \<or>
                             (\<exists>l. language i = Some l \<and> l \<in> set langs)) (issueValues s))))) \<and>
     (\<exists>r. getRecommendedIssuesForUser now userId f s = Inr r \<and>
        total r = int (length (filter
                    (\<lambda>i. (language i = None \<or> language i = Some [] \<or>
                            (\<exists>l. language i = Some l \<and> l \<in> set langs)) \<and>
                         keepsLanguage f i \<and> keepsDifficulty f i \<and> keepsSize f i)
                    (issueValues s))) \<and>
        (\<forall>x \<in> set (result_issues r).
           (language x = None \<or> language x = Some [] \<or>
            (\<exists>l. language x = Some l \<and> l \<in> set langs)) \<and>
           keepsLanguage f x \<and> keepsDifficulty f x \<and> keepsSize f x))"
proof -
  let ?narrow = "\<lambda>i. language i = None \<or> language i = Some [] \<or>
                          (\<exists>l. language i = Some l \<and> l \<in> set langs)"
  have cb: "affinityCallback langs = ?narrow"
    by (auto simp: affinityCallback_def truthy_def includes_arr_def orEmpty_def fun_eq_iff
             split: option.splits)
  have ka: "keepsAffinity u f = ?narrow"
    using assms(2,3,4)
    by (auto simp: keepsAffinity_def truthy_def orEmpty_def fun_eq_iff split: option.splits)
  have A: "applySearchOrAffinity u f xs = Inr (filter ?narrow xs)" for xs
    using assms(2,3,4) by (simp add: applySearchOrAffinity_def applyAffinity_def cb)
  have B: "filteredRecommended u f s
       = Inr (applySize f (applyDifficulty f (applyLanguages f (filter ?narrow (issueValues s)))))"
    by (simp add: filteredRecommended_def A)
  have ok: "labelsPresent s \<or> \<not> searchActive f" using assms(2) by simp
  have kept: "keptRecommended u f s
      = filter (\<lambda>i. ?narrow i \<and> keepsLanguage f i \<and> keepsDifficulty f i \<and> keepsSize f i)
          (issueValues s)"
    using assms(2) by (simp add: keptRecommended_def keepsSearch_inactive ka)
  define r where "r = paginate f
       (sort_js (compareScore now u) (map (markRecommended u) (keptRecommended u f s)))"
  have r: "getRecommendedIssuesForUser now userId f s = Inr r"
    unfolding r_def by (rule getRecommended_eq [OF ok assms(1)])
  have t: "total r = int (length (keptRecommended u f s))"
    by (simp add: r_def paginate_total length_ranked_score)
  have items: "?narrow x \<and> keepsLanguage f x \<and> keepsDifficulty f x \<and> keepsSize f x"
    if "x \<in> set (result_issues r)" for x
  proof -
    from that obtain i where i: "i \<in> set (keptRecommended u f s)" "x = markRecommended u i"
      unfolding r_def using recommended_items_kept by blast
    from i(1) have "?narrow i \<and> keepsLanguage f i \<and> keepsDifficulty f i \<and> keepsSize f i"
      unfolding kept by simp
    then show ?thesis
      unfolding i(2) by (simp add: keeps_markRecommended markRecommended_fields)
  qed
  have C: "\<exists>r. getRecommendedIssuesForUser now userId f s = Inr r \<and>
        total r = int (length (filter
                    (\<lambda>i. ?narrow i \<and> keepsLanguage f i \<and> keepsDifficulty f i \<and> keepsSize f i)
                    (issueValues s))) \<and>
        (\<forall>x \<in> set (result_issues r).
           ?narrow x \<and> keepsLanguage f x \<and> keepsDifficulty f x \<and> keepsSize f x)"
    using r t items unfolding kept by blast
  from A B C show ?thesis by blast
qed


theorem affinity_narrowing_without_search_witness:
  "getUser sampleStore ''u1'' = Some (sampleUser ''u1'' [''Python'']) \<and>
   \<not> searchActive noFilters \<and>
   topLanguages (sampleUser ''u1'' [''Python'']) = Some [''Python''] \<and>
   applySearchOrAffinity (sampleUser ''u1'' [''Python'']) noFilters (issueValues sampleStore)
     = Inr [sampleIssue ''Old Starter'' (Some ''Python'') [''Good First Issue''] 50 1000,
            sampleIssue ''Fresh'' None [] 2000 5000] \<and>
   (\<exists>r. getRecommendedIssuesForUser 5000 ''u1'' noFilters sampleStore = Inr r \<and> total r = 2)"
proof -
  have u: "getUser sampleStore ''u1'' = Some (sampleUser ''u1'' [''Python''])" by code_simp
  have q: "\<not> searchActive noFilters" by code_simp
  have t: "topLanguages (sampleUser ''u1'' [''Python'']) = Some [''Python'']" by code_simp
  have n: "[''Python''] \<noteq> ([] :: string list)" by simp
  have v: "issueValues sampleStore
      = [sampleIssue ''Old Starter'' (Some ''Python'') [''Good First Issue''] 50 1000,
         sampleIssue ''Fresh'' None [] 2000 5000,
         sampleIssue ''Java thing'' (Some ''Java'') [''bug''] 100 3000]"
    by (simp add: issueValues_def sampleStore_def)
  have k: "keepsLanguage noFilters i \<and> keepsDifficulty noFilters i \<and> keepsSize noFilters i" for i
    by (simp add: keepsLanguage_def keepsDifficulty_def keepsSize_def noFilters_def)
  have f1: "filter (\<lambda>i. language i = None \<or> language i = Some [] \<or>
                          (\<exists>l. language i = Some l \<and> l \<in> set [''Python'']))
               [sampleIssue ''Old Starter'' (Some ''Python'') [''Good First Issue''] 50 1000,
                sampleIssue ''Fresh'' None [] 2000 5000,
                sampleIssue ''Java thing'' (Some ''Java'') [''bug''] 100 3000]
      = [sampleIssue ''Old Starter'' (Some ''Python'') [''Good First Issue''] 50 1000,
         sampleIssue ''Fresh'' None [] 2000 5000]"
    by (simp add: sampleIssue_def)
  have f2: "length (filter (\<lambda>i. (language i = None \<or> language i = Some [] \<or>
                          (\<exists>l. language i = Some l \<and> l \<in> set [''Python''])) \<and>
                         keepsLanguage noFilters i \<and> keepsDifficulty noFilters i \<and>
                         keepsSize noFilters i)
               [sampleIssue ''Old Starter'' (Some ''Python'') [''Good First Issue''] 50 1000,
                sampleIssue ''Fresh'' None [] 2000 5000,
                sampleIssue ''Java thing'' (Some ''Java'') [''bug''] 100 3000]) = 2"
    by (simp add: k sampleIssue_def)
  note T = affinity_narrowing_without_search
             [OF u q t n, of "issueValues sampleStore" 5000]
  have A: "applySearchOrAffinity (sampleUser ''u1'' [''Python'']) noFilters (issueValues sampleStore)
     = Inr [sampleIssue ''Old Starter'' (Some ''Python'') [''Good First Issue''] 50 1000,
            sampleIssue ''Fresh'' None [] 2000 5000]"
    using T [THEN conjunct1] unfolding v f1 .
  have B: "\<exists>r. getRecommendedIssuesForUser 5000 ''u1'' noFilters sampleStore = Inr r \<and> total r = 2"
    using T [THEN conjunct2, THEN conjunct2] unfolding v f2 by auto
  from u q t A B show ?thesis by blast
qed

text \<open>
  C2. With no search active and a user that has top languages, an issue is to pass the
  narrowing only if it has no language set or its language is one of the user's, and the
  issues and the total returned are to show it. The copy of the method in
  \<open>server/storage.ts\<close> computes the narrowed array and never reads it: on the sample
  store, for the user whose only top language is Python, it returns the Java issue as
  well, with the total 3. The other copy returns the two issues that pass, with the
  total 2.
\<close>

theorem storage_ts_drops_narrowing:
  "getUser sampleStore ''u1'' = Some (sampleUser ''u1'' [''Python'']) \<and>
   topLanguages (sampleUser ''u1'' [''Python'']) = Some [''Python''] \<and>
   \<not> searchActive noFilters \<and>
   resultIds (getRecommendedIssuesForUser_v0 5000 ''u1'' noFilters sampleStore)
     = [''Old Starter'', ''Fresh'', ''Java thing''] \<and>
   map language (result_issues (getRecommendedIssuesForUser_v0 5000 ''u1'' noFilters sampleStore))
     = [Some ''Python'', None, Some ''Java''] \<and>
   total (getRecommendedIssuesForUser_v0 5000 ''u1'' noFilters sampleStore) = 3 \<and>
   returned (getRecommendedIssuesForUser 5000 ''u1'' noFilters sampleStore)
     = Some ([''Old Starter'', ''Fresh''], 2)"
  by code_simp

section \<open>A user without top languages\<close>

text \<open>
  C10. For a user that is in the store and whose top languages are null or an empty
  array, \<open>getRecommendedIssuesForUser\<close> narrows nothing: its first step is the search
  step of \<open>getIssues\<close> and nothing else, the issues it keeps are those \<open>getIssues\<close>
  keeps for the same filters, whatever their language, and the two methods return the
  same total, or throw together.
\<close>

theorem no_narrowing_without_top_languages:
  assumes "getUser s userId = Some u"
      and "topLanguages u = None \<or> topLanguages u = Some []"
  shows
    "applyAffinity u xs = xs \<and>
     applySearchOrAffinity u f xs = applySearch f xs \<and>
     keptRecommended u f s = keptIssues f s \<and>
     filteredRecommended u f s
       = (case applySearch f (issueValues s) of
            Inl e \<Rightarrow> Inl e
          | Inr ys \<Rightarrow> Inr (applySize f (applyDifficulty f (applyLanguages f ys)))) \<and>
     (\<forall>r. getRecommendedIssuesForUser now userId f s = Inr r \<longrightarrow>
          (\<exists>r'. getIssues f s = Inr r' \<and> total r' = total r)) \<and>
     (\<forall>e. getRecommendedIssuesForUser now userId f s = Inl e \<longleftrightarrow> getIssues f s = Inl e)"
proof -
  have A: "applyAffinity u xs = xs" for xs
    using assms(2) by (rule applyAffinity_none)
  have B: "applySearchOrAffinity u f xs = applySearch f xs" for xs
    by (simp add: applySearchOrAffinity_def applySearch_def A)
  have C: "keptRecommended u f s = keptIssues f s"
    using assms(2) by (simp add: keptRecommended_def keptIssues_def keepsAffinity_none)
  have D: "filteredRecommended u f s
       = (case applySearch f (issueValues s) of
            Inl e \<Rightarrow> Inl e
          | Inr ys \<Rightarrow> Inr (applySize f (applyDifficulty f (applyLanguages f ys))))"
    by (simp add: filteredRecommended_def B)
  show ?thesis
  proof (cases "applySearch f (issueValues s)")
    case (Inl e)
    then have "getRecommendedIssuesForUser now userId f s = Inl e" "getIssues f s = Inl e"
      using assms(1)
      by (simp_all add: getRecommendedIssuesForUser_def rankedRecommended_def D
            getIssues_def rankedIssues_def)
    with A B C D show ?thesis by simp
  next
    case (Inr ys)
    define zs where "zs = applySize f (applyDifficulty f (applyLanguages f ys))"
    have r: "getRecommendedIssuesForUser now userId f s
               = Inr (paginate f (sort_js (compareScore now u) (map (markRecommended u) zs)))"
      using assms(1) Inr
      by (simp add: getRecommendedIssuesForUser_def rankedRecommended_def D zs_def)
    have g: "getIssues f s = Inr (paginate f (sort_js (compareIssues (sortByOf f)) zs))"
      using Inr by (simp add: getIssues_def rankedIssues_def zs_def)
    have "total (paginate f (sort_js (compareIssues (sortByOf f)) zs))
            = total (paginate f (sort_js (compareScore now u) (map (markRecommended u) zs)))"
      by (simp add: paginate_total length_ranked length_ranked_score)
    with r g have E: "\<forall>r. getRecommendedIssuesForUser now userId f s = Inr r \<longrightarrow>
          (\<exists>r'. getIssues f s = Inr r' \<and> total r' = total r)"
      by simp
    from r g have F: "\<forall>e. getRecommendedIssuesForUser now userId f s = Inl e
                         \<longleftrightarrow> getIssues f s = Inl e"
      by simp
    from A B C D E F show ?thesis by blast
  qed
qed

theorem no_narrowing_without_top_languages_witness:
  "getUser sampleStore ''u2'' = Some (sampleUser ''u2'' []) \<and>
   topLanguages (sampleUser ''u2'' []) = Some [] \<and>
   keptRecommended (sampleUser ''u2'' []) noFilters sampleStore = issueValues sampleStore \<and>
   (\<exists>r'. getIssues noFilters sampleStore = Inr r' \<and> total r' = 3) \<and>
   (\<exists>r. getRecommendedIssuesForUser 5000 ''u2'' noFilters sampleStore = Inr r \<and> total r = 3)"
proof -
  have u: "getUser sampleStore ''u2'' = Some (sampleUser ''u2'' [])" by code_simp
  have t: "topLanguages (sampleUser ''u2'' []) = Some []" by code_simp
  have k: "keptIssues noFilters sampleStore = issueValues sampleStore" by code_simp
  have "case getRecommendedIssuesForUser 5000 ''u2'' noFilters sampleStore of
          Inl e \<Rightarrow> False | Inr r \<Rightarrow> total r = 3"
    by code_simp
  then obtain r where r: "getRecommendedIssuesForUser 5000 ''u2'' noFilters sampleStore = Inr r"
     "total r = 3" by (auto split: sum.splits)
  note T = no_narrowing_without_top_languages [OF u disjI2 [OF t], of "[]" noFilters 5000]
  from T r have "\<exists>r'. getIssues noFilters sampleStore = Inr r' \<and> total r' = 3" by auto
  moreover from T k have "keptRecommended (sampleUser ''u2'' []) noFilters sampleStore
                            = issueValues sampleStore" by simp
  ultimately show ?thesis using u t r by blast
qed

section \<open>The search\<close>

text \<open>
  The copy of the class with the search step. When the search text is not empty after
  trimming, the term searched for is the
  text in lower case, trimmed, and the search keeps an issue if and only if that term
  occurs in the lower-cased title, body (when there is one), repository name,
  repository owner, language (when there is one) or one of the labels; a null body or
  language matches nothing and is no error. Both \<open>getIssues\<close> and
  \<open>getRecommendedIssuesForUser\<close> run this one predicate over the stored issues: their
  totals count the issues it keeps and that pass the three filters, and every issue
  they return matches.
\<close>

theorem search_matches_any_field:
  assumes "search f = Some q" "trim q \<noteq> []"
  shows
    "searchTerm f = trim (toLowerCase q) \<and>
     (\<forall>ls. labels i = Some ls \<longrightarrow>
        matchesSearch (searchTerm f) i = Inr
          ((\<exists>a b. toLowerCase (title i) = a @ searchTerm f @ b) \<or>
           (\<exists>bd a b. body i = Some bd \<and> toLowerCase bd = a @ searchTerm f @ b) \<or>
           (\<exists>a b. toLowerCase (repositoryName i) = a @ searchTerm f @ b) \<or>
           (\<exists>a b. toLowerCase (repositoryOwner i) = a @ searchTerm f @ b) \<or>
           (\<exists>l a b. language i = Some l \<and> toLowerCase l = a @ searchTerm f @ b) \<or>
           (\<exists>label \<in> set ls. \<exists>a b. toLowerCase label = a @ searchTerm f @ b))) \<and>
     applySearch f xs = filterE (matchesSearch (searchTerm f)) xs \<and>
     applySearchOrAffinity u f xs = filterE (matchesSearch (searchTerm f)) xs \<and>
     (labelsPresent s \<longrightarrow>
        (\<exists>r. getIssues f s = Inr r \<and>
           total r = int (length (filter
                       (\<lambda>x. matchesSearch (searchTerm f) x = Inr True \<and> keepsLanguage f x \<and>
                            keepsDifficulty f x \<and> keepsSize f x) (issueValues s))) \<and>
           (\<forall>x \<in> set (result_issues r). matchesSearch (searchTerm f) x = Inr True)) \<and>
        (getUser s userId = Some u \<longrightarrow>
           (\<exists>r. getRecommendedIssuesForUser now userId f s = Inr r \<and>
              total r = int (length (filter
                          (\<lambda>x. matchesSearch (searchTerm f) x = Inr True \<and> keepsLanguage f x \<and>
                               keepsDifficulty f x \<and> keepsSize f x) (issueValues s))) \<and>
              (\<forall>x \<in> set (result_issues r). matchesSearch (searchTerm f) x = Inr True))))"
proof -
  have act: "searchActive f" using assms by (auto simp: searchActive_iff)
  have tq: "searchTerm f = trim (toLowerCase q)"
    using assms(1) by (simp add: searchTerm_def orEmpty_def)
  have fields: "\<forall>ls. labels i = Some ls \<longrightarrow>
        matchesSearch (searchTerm f) i = Inr
          ((\<exists>a b. toLowerCase (title i) = a @ searchTerm f @ b) \<or>
           (\<exists>bd a b. body i = Some bd \<and> toLowerCase bd = a @ searchTerm f @ b) \<or>
           (\<exists>a b. toLowerCase (repositoryName i) = a @ searchTerm f @ b) \<or>
           (\<exists>a b. toLowerCase (repositoryOwner i) = a @ searchTerm f @ b) \<or>
           (\<exists>l a b. language i = Some l \<and> toLowerCase l = a @ searchTerm f @ b) \<or>
           (\<exists>label \<in> set ls. \<exists>a b. toLowerCase label = a @ searchTerm f @ b))"
    by (intro allI impI matchesSearch_fields)
  have s1: "applySearch f xs = filterE (matchesSearch (searchTerm f)) xs"
    using act by (simp add: applySearch_def)
  have s2: "applySearchOrAffinity u f xs = filterE (matchesSearch (searchTerm f)) xs"
    using act by (simp add: applySearchOrAffinity_def)
  have ks: "keepsSearch f = (\<lambda>x. matchesSearch (searchTerm f) x = Inr True)"
    using act by (simp add: keepsSearch_def fun_eq_iff)
  have ka: "keepsAffinity u f = (\<lambda>x. True)"
    using act by (simp add: keepsAffinity_def fun_eq_iff)
  have kI: "keptIssues f s = filter
              (\<lambda>x. matchesSearch (searchTerm f) x = Inr True \<and> keepsLanguage f x \<and>
                   keepsDifficulty f x \<and> keepsSize f x) (issueValues s)"
    by (simp add: keptIssues_def ks)
  have kR: "keptRecommended u f s = keptIssues f s"
    by (simp add: keptRecommended_def keptIssues_def ka)
  have anon: "\<exists>r. getIssues f s = Inr r \<and>
           total r = int (length (filter
                       (\<lambda>x. matchesSearch (searchTerm f) x = Inr True \<and> keepsLanguage f x \<and>
                            keepsDifficulty f x \<and> keepsSize f x) (issueValues s))) \<and>
           (\<forall>x \<in> set (result_issues r). matchesSearch (searchTerm f) x = Inr True)"
    if ok: "labelsPresent s"
  proof -
    define r where "r = paginate f (sort_js (compareIssues (sortByOf f)) (keptIssues f s))"
    have g: "getIssues f s = Inr r"
      unfolding r_def by (rule getIssues_eq) (simp add: ok)
    have t: "total r = int (length (keptIssues f s))"
      by (simp add: r_def paginate_total length_ranked)
    have "matchesSearch (searchTerm f) x = Inr True" if "x \<in> set (result_issues r)" for x
    proof -
      from that paginate_subset
      have "x \<in> set (sort_js (compareIssues (sortByOf f)) (keptIssues f s))"
        unfolding r_def by blast
      then have "x \<in> set (keptIssues f s)"
        by (simp add: compareIssues_key set_sort_js)
      then show ?thesis unfolding kI by simp
    qed
    with g t show ?thesis unfolding kI by blast
  qed
  have rec: "\<exists>r. getRecommendedIssuesForUser now userId f s = Inr r \<and>
              total r = int (length (filter
                          (\<lambda>x. matchesSearch (searchTerm f) x = Inr True \<and> keepsLanguage f x \<and>
                               keepsDifficulty f x \<and> keepsSize f x) (issueValues s))) \<and>
              (\<forall>x \<in> set (result_issues r). matchesSearch (searchTerm f) x = Inr True)"
    if ok: "labelsPresent s" and usr: "getUser s userId = Some u"
  proof -
    define r where "r = paginate f
       (sort_js (compareScore now u) (map (markRecommended u) (keptRecommended u f s)))"
    have g: "getRecommendedIssuesForUser now userId f s = Inr r"
      unfolding r_def by (rule getRecommended_eq [OF _ usr]) (simp add: ok)
    have t: "total r = int (length (keptIssues f s))"
      by (simp add: r_def paginate_total length_ranked_score kR)
    have "matchesSearch (searchTerm f) x = Inr True" if "x \<in> set (result_issues r)" for x
    proof -
      from that obtain j where j: "j \<in> set (keptRecommended u f s)" "x = markRecommended u j"
        unfolding r_def using recommended_items_kept by blast
      from j(1) have "matchesSearch (searchTerm f) j = Inr True"
        unfolding kR kI by simp
      then show ?thesis unfolding j(2) by (simp add: keeps_markRecommended)
    qed
    with g t show ?thesis unfolding kI by blast
  qed
  from tq fields s1 s2 anon rec show ?thesis by blast
qed

theorem search_matches_any_field_witness:
  "search typoFilters = Some '' Typo '' \<and> trim '' Typo '' \<noteq> [] \<and>
   searchTerm typoFilters = ''typo'' \<and>
   labels docsIssue = Some [] \<and>
   matchesSearch ''typo'' docsIssue = Inr True \<and>
   labelsPresent docsStore \<and>
   getUser docsStore ''u1'' = Some (sampleUser ''u1'' [''Python'']) \<and>
   (\<exists>r. getIssues typoFilters docsStore = Inr r \<and> total r = 1) \<and>
   (\<exists>r. getRecommendedIssuesForUser 5000 ''u1'' typoFilters docsStore = Inr r \<and> total r = 1)"
proof -
  have q: "search typoFilters = Some '' Typo ''" by code_simp
  have t: "trim '' Typo '' \<noteq> []" by code_simp
  have l: "labelsPresent docsStore" by code_simp
  have u: "getUser docsStore ''u1'' = Some (sampleUser ''u1'' [''Python''])" by code_simp
  have ls: "labels docsIssue = Some []" by code_simp
  have tt: "trim (toLowerCase '' Typo '') = ''typo''" by code_simp
  have m: "matchesSearch ''typo'' docsIssue = Inr True" by code_simp
  have n: "int (length (filter
             (\<lambda>x. matchesSearch ''typo'' x = Inr True \<and> keepsLanguage typoFilters x \<and>
                  keepsDifficulty typoFilters x \<and> keepsSize typoFilters x)
             (issueValues docsStore))) = 1" by code_simp
  note T = search_matches_any_field
             [OF q t, of docsIssue "[]" "sampleUser ''u1'' [''Python'']" docsStore "''u1''" 5000]
  from T have st: "searchTerm typoFilters = ''typo''" by (simp add: tt)
  from T l u have
    "(\<exists>r. getIssues typoFilters docsStore = Inr r \<and> total r = 1) \<and>
     (\<exists>r. getRecommendedIssuesForUser 5000 ''u1'' typoFilters docsStore = Inr r \<and> total r = 1)"
    unfolding st n by blast
  with q t st ls m l u show ?thesis by blast
qed

text \<open>
  C4. A search text that is not empty after trimming is to keep exactly the issues where
  the term occurs in one of the searched fields, in \<open>getIssues\<close> and in
  \<open>getRecommendedIssuesForUser\<close>. The copy of the class in \<open>server/storage.ts\<close> has no
  search step in either method: on the store of four issues of which only the last one
  has "typo" in a field (its body), the search for " Typo " returns all four from both
  methods, with the total 4. The other copy returns that one issue from both, with the
  total 1.
\<close>

theorem storage_ts_ignores_search:
  "search typoFilters = Some '' Typo '' \<and> trim '' Typo '' = ''Typo'' \<and>
   searchTerm typoFilters = ''typo'' \<and>
   map issue_id (issueValues docsStore) = [''Old Starter'', ''Fresh'', ''Java thing'', ''Docs''] \<and>
   map (matchesSearch ''typo'') (issueValues docsStore)
     = [Inr False, Inr False, Inr False, Inr True] \<and>
   resultIds (getIssues_v0 typoFilters docsStore)
     = [''Fresh'', ''Java thing'', ''Old Starter'', ''Docs''] \<and>
   total (getIssues_v0 typoFilters docsStore) = 4 \<and>
   resultIds (getRecommendedIssuesForUser_v0 5000 ''u1'' typoFilters docsStore)
     = [''Old Starter'', ''Fresh'', ''Java thing'', ''Docs''] \<and>
   total (getRecommendedIssuesForUser_v0 5000 ''u1'' typoFilters docsStore) = 4 \<and>
   returned (getIssues typoFilters docsStore) = Some ([''Docs''], 1) \<and>
   returned (getRecommendedIssuesForUser 5000 ''u1'' typoFilters docsStore) = Some ([''Docs''], 1)"
  by code_simp

section \<open>What a query leaves behind\<close>

text \<open>
  C9. On a machine whose issues \<open>Map\<close> points into its heap, neither query changes what
  is stored. \<open>getIssues\<close> leaves the machine as it was, and the references it returns
  are references of the issues \<open>Map\<close>. \<open>getRecommendedIssuesForUser\<close> leaves the three
  \<open>Map\<close>s as they were, with the same keys and the same references, and every object
  that was in the heap before the call is unchanged after it, so the stored rows read
  the same; the references it returns all point to objects made during the call, the
  copies that carry the \<open>isRecommended\<close> mark.
\<close>

theorem queries_leave_store_unchanged:
  assumes "wellFormed m"
  shows
    "snd (getIssues_h f m) = m \<and>
     (\<forall>r. fst (getIssues_h f m) = Inr r \<longrightarrow> set (refs r) \<subseteq> set (heapValues m)) \<and>
     m_users (snd (getRecommendedIssuesForUser_h now userId f m)) = m_users m \<and>
     m_repositories (snd (getRecommendedIssuesForUser_h now userId f m)) = m_repositories m \<and>
     m_issues (snd (getRecommendedIssuesForUser_h now userId f m)) = m_issues m \<and>
     take (length (m_heap m)) (m_heap (snd (getRecommendedIssuesForUser_h now userId f m)))
       = m_heap m \<and>
     storeOf (snd (getRecommendedIssuesForUser_h now userId f m)) = storeOf m \<and>
     (\<forall>r. fst (getRecommendedIssuesForUser_h now userId f m) = Inr r \<longrightarrow>
        (\<forall>a \<in> set (refs r).
           length (m_heap m) \<le> a \<and>
           a < length (m_heap (snd (getRecommendedIssuesForUser_h now userId f m)))))"
proof -
  let ?h = "m_heap m"
  have shape: "\<exists>cs res. getRecommendedIssuesForUser_h now userId f m = (res, m\<lparr>m_heap := ?h @ cs\<rparr>) \<and>
      (\<forall>r. res = Inr r \<longrightarrow> (\<forall>a \<in> set (refs r). length ?h \<le> a \<and> a < length (?h @ cs)))"
  proof (cases "map_of (m_users m) userId")
    case None
    then have "getRecommendedIssuesForUser_h now userId f m
                 = (Inr \<lparr>refs = [], ref_total = 0\<rparr>, m\<lparr>m_heap := ?h @ []\<rparr>)"
      by (simp add: getRecommended_h_unknown)
    then show ?thesis by (intro exI [of _ "[]"]) auto
  next
    case (Some u)
    show ?thesis
    proof (cases "applySearchOrAffinity_h ?h u f (heapValues m)")
      case (Inl e)
      then have "getRecommendedIssuesForUser_h now userId f m = (Inl e, m\<lparr>m_heap := ?h @ []\<rparr>)"
        using Some by (simp add: getRecommendedIssuesForUser_h_def Let_def)
      then show ?thesis by (intro exI [of _ "[]"]) auto
    next
      case (Inr as)
      define kept where
        "kept = applySize_h ?h f (applyDifficulty_h ?h f (applyLanguages_h ?h f as))"
      define cs where "cs = map (\<lambda>a. markRecommended u (?h ! a)) kept"
      define rs where "rs = map (\<lambda>k. length ?h + k) [0..<length kept]"
      define res where "res = paginate_h f
         (sort_js (\<lambda>a b. compareScore now u ((?h @ cs) ! a) ((?h @ cs) ! b)) rs)"
      have run: "getRecommendedIssuesForUser_h now userId f m = (Inr res, m\<lparr>m_heap := ?h @ cs\<rparr>)"
        unfolding res_def cs_def rs_def kept_def
        by (rule getRecommended_h_run [OF assms Some Inr])
      have "set (refs res) \<subseteq> set rs"
        unfolding res_def by (rule refs_paginate_sorted)
      moreover have "\<forall>a \<in> set rs. length ?h \<le> a \<and> a < length (?h @ cs)"
        by (auto simp: rs_def cs_def)
      ultimately have "\<forall>a \<in> set (refs res). length ?h \<le> a \<and> a < length (?h @ cs)"
        by blast
      with run show ?thesis by (intro exI [of _ cs] exI [of _ "Inr res"]) auto
    qed
  qed
  then obtain cs res where
    run: "getRecommendedIssuesForUser_h now userId f m = (res, m\<lparr>m_heap := ?h @ cs\<rparr>)"
    and fresh: "\<forall>r. res = Inr r \<longrightarrow> (\<forall>a \<in> set (refs r). length ?h \<le> a \<and> a < length (?h @ cs))"
    by blast
  from assms have "\<forall>(k, a) \<in> set (m_issues m). a < length ?h"
    by (auto simp: wellFormed_def list_all_iff)
  then have same: "map (\<lambda>(k, a). (k, (?h @ cs) ! a)) (m_issues m)
                     = map (\<lambda>(k, a). (k, ?h ! a)) (m_issues m)"
    by (auto simp: nth_append)
  have st: "storeOf (m\<lparr>m_heap := ?h @ cs\<rparr>) = storeOf m"
    by (simp add: storeOf_def same)
  show ?thesis
    using fresh st getIssues_h_refs [of f m]
    by (simp add: getIssues_h_frame run)
qed


theorem queries_leave_store_unchanged_witness:
  "wellFormed sampleMachine \<and>
   storeOf sampleMachine = sampleStore \<and>
   snd (getIssues_h noFilters sampleMachine) = sampleMachine \<and>
   storeOf (snd (getRecommendedIssuesForUser_h 5000 ''u1'' noFilters sampleMachine)) = sampleStore \<and>
   length (m_heap sampleMachine) = 3 \<and>
   fst (getRecommendedIssuesForUser_h 5000 ''u1'' noFilters sampleMachine)
     = Inr \<lparr>refs = [3, 4], ref_total = 2\<rparr>"
proof -
  have w: "wellFormed sampleMachine" by code_simp
  have s: "storeOf sampleMachine = sampleStore" by code_simp
  have n: "length (m_heap sampleMachine) = 3" by code_simp
  have r: "fst (getRecommendedIssuesForUser_h 5000 ''u1'' noFilters sampleMachine)
     = Inr \<lparr>refs = [3, 4], ref_total = 2\<rparr>" by code_simp
  from queries_leave_store_unchanged [OF w, of noFilters 5000 "''u1''"] w s n r
  show ?thesis by simp
qed

end
